theory Spec2Isabelle
  imports Complex_Main "HOL-Library.List_Lexorder" "HOL-Library.Multiset"
begin

section \<open>Strings\<close>

text \<open>
  A Python \<^verbatim>\<open>str\<close> is a sequence of Unicode code points. Code points are modelled as
  natural numbers and strings as lists of them, so that the regular expressions and the
  comparisons of the script see what Python sees. \<open>py\<close> turns an ASCII literal into such a
  string.
\<close>

type_synonym codepoint = nat
type_synonym pystr = "codepoint list"

definition py :: "string \<Rightarrow> pystr" where
  "py s = map of_char s"

text \<open>
  \<^verbatim>\<open>s.replace(old, new)\<close>: every non-overlapping occurrence of \<open>old\<close>, found from the
  left, is replaced by \<open>new\<close>. With an empty \<open>old\<close> Python puts \<open>new\<close> before every
  character and at the end.
\<close>

function str_replace :: "pystr \<Rightarrow> pystr \<Rightarrow> pystr \<Rightarrow> pystr" where
  "str_replace old new s =
     (if old = [] then new @ concat (map (\<lambda>c. c # new) s)
      else if s = [] then []
      else if take (length old) s = old
        then new @ str_replace old new (drop (length old) s)
      else hd s # str_replace old new (tl s))"
  by pat_completeness auto
termination
  by (relation "measure (\<lambda>(old, new, s). length s)") auto

declare str_replace.simps [simp del]

section \<open>XML escaping\<close>

text \<open>
  \<^verbatim>\<open>
  def escape_xml(str_input):
      return str_input.replace("&", "&amp;").replace("<", "&lt;").replace(">", "&gt;")
  \<close>
\<close>

definition escape_xml :: "pystr \<Rightarrow> pystr" where
  "escape_xml str_input =
     str_replace (py ''>'') (py ''&gt;'')
       (str_replace (py ''<'') (py ''&lt;'')
         (str_replace (py ''&'') (py ''&amp;'') str_input))"

text \<open>
  The reverse direction is not part of the script. \<open>unescape_xml\<close> is the decoding of the
  three entity references that an XML reader performs, in one pass from the left: a
  reference \<^verbatim>\<open>&amp;\<close>, \<^verbatim>\<open>&lt;\<close> or \<^verbatim>\<open>&gt;\<close> yields its character, anything else is
  copied.
\<close>

function unescape_xml :: "pystr \<Rightarrow> pystr" where
  "unescape_xml [] = []"
| "unescape_xml (c # cs) =
     (if c = 38 \<and> take 4 cs = py ''amp;'' then 38 # unescape_xml (drop 4 cs)
      else if c = 38 \<and> take 3 cs = py ''lt;'' then 60 # unescape_xml (drop 3 cs)
      else if c = 38 \<and> take 3 cs = py ''gt;'' then 62 # unescape_xml (drop 3 cs)
      else c # unescape_xml cs)"
  by pat_completeness auto
termination
  by (relation "measure length") auto

declare unescape_xml.simps(2) [simp del]

text \<open>
  \<^verbatim>\<open>xml.sax.saxutils.unescape\<close> of the Python standard library decodes by three
  replacements instead, the ampersand last:
  \<^verbatim>\<open>
  def unescape(data):
      data = data.replace("&lt;", "<")
      data = data.replace("&gt;", ">")
      return data.replace("&amp;", "&")
  \<close>
\<close>

definition saxutils_unescape :: "pystr \<Rightarrow> pystr" where
  "saxutils_unescape data =
     str_replace (py ''&amp;'') (py ''&'')
       (str_replace (py ''&gt;'') (py ''>'')
         (str_replace (py ''&lt;'') (py ''<'') data))"

text \<open>
  What the three replacements of \<open>escape_xml\<close> do to one code point, and what is left
  of it after the first and after the second replacement of the decoding.
\<close>

definition esc1 :: "codepoint \<Rightarrow> pystr" where
  "esc1 c = (if c = 38 then py ''&amp;'' else if c = 60 then py ''&lt;''
             else if c = 62 then py ''&gt;'' else [c])"

definition esc_amp_gt :: "codepoint \<Rightarrow> pystr" where
  "esc_amp_gt c = (if c = 38 then py ''&amp;'' else if c = 62 then py ''&gt;'' else [c])"

definition esc_amp :: "codepoint \<Rightarrow> pystr" where
  "esc_amp c = (if c = 38 then py ''&amp;'' else [c])"

section \<open>Filename sanitizer\<close>

text \<open>
  \<^verbatim>\<open>
  def sanitize_filename(filename):
      filename = unicodedata.normalize('NFKD', filename).encode('ascii', 'ignore').decode('utf8')
      filename = re.sub(r'[^\.\w\s-]', '', filename)
      filename = re.sub(r'[-_\s]+', '-', filename)
      filename = re.sub(r'[\.]+', '.', filename)
      filename = filename.strip('-_.')
      return filename
  \<close>

  The first line replaces every code point by its full compatibility decomposition,
  reorders combining marks and then drops every code point that is not ASCII. The
  decomposition of a single code point is a table of the Unicode database, which the
  script does not contain: it is the parameter \<open>nfkd\<close>. The reordering only permutes
  combining marks, none of which is ASCII, so it has no effect on what survives the
  encoding and is left out. The one fact about the table that the proofs use is that an
  ASCII code point is its own decomposition.
\<close>

definition ascii_fold :: "(codepoint \<Rightarrow> pystr) \<Rightarrow> pystr \<Rightarrow> pystr" where
  "ascii_fold nfkd s = filter (\<lambda>c. c < 128) (concat (map nfkd s))"

text \<open>The table on the code points that have no decomposition, ASCII among them.\<close>

definition nfkd_plain :: "codepoint \<Rightarrow> pystr" where
  "nfkd_plain c = [c]"

text \<open>
  The character classes of \<^verbatim>\<open>re\<close>. \<^verbatim>\<open>\s\<close> is a code point for which \<^verbatim>\<open>str.isspace\<close>
  holds: in ASCII the tab to the carriage return, the four separators 28 to 31 and the
  space; beyond ASCII the next-line control, the no-break space and the space, line and
  paragraph separators of Unicode. \<^verbatim>\<open>\w\<close> is given on ASCII only, where it is a letter, a
  digit or the underscore: the patterns are applied after the encoding, to ASCII strings.
\<close>

definition is_alnum :: "codepoint \<Rightarrow> bool" where
  "is_alnum c = ((48 \<le> c \<and> c \<le> 57) \<or> (65 \<le> c \<and> c \<le> 90) \<or> (97 \<le> c \<and> c \<le> 122))"

definition re_w :: "codepoint \<Rightarrow> bool" where
  "re_w c = (is_alnum c \<or> c = 95)"

definition re_s :: "codepoint \<Rightarrow> bool" where
  "re_s c =
     (if c < 128 then (9 \<le> c \<and> c \<le> 13) \<or> (28 \<le> c \<and> c \<le> 32)
      else c = 133 \<or> c = 160 \<or> c = 5760 \<or> (8192 \<le> c \<and> c \<le> 8202) \<or> c = 8232 \<or>
           c = 8233 \<or> c = 8239 \<or> c = 8287 \<or> c = 12288)"

text \<open>The classes of the three patterns and of \<^verbatim>\<open>strip\<close>.\<close>

definition is_kept :: "codepoint \<Rightarrow> bool" where
  "is_kept c = (c = 46 \<or> re_w c \<or> re_s c \<or> c = 45)"

definition is_sep :: "codepoint \<Rightarrow> bool" where
  "is_sep c = (c = 45 \<or> c = 95 \<or> re_s c)"

definition is_dot :: "codepoint \<Rightarrow> bool" where
  "is_dot c = (c = 46)"

definition is_edge :: "codepoint \<Rightarrow> bool" where
  "is_edge c = (c = 45 \<or> c = 95 \<or> c = 46)"

text \<open>
  \<^verbatim>\<open>re.sub('[...]+', repl, s)\<close> for a character class \<open>P\<close>: every maximal run of
  characters of the class is replaced by \<open>repl\<close>.
\<close>

function re_sub_plus :: "(codepoint \<Rightarrow> bool) \<Rightarrow> pystr \<Rightarrow> pystr \<Rightarrow> pystr" where
  "re_sub_plus P repl [] = []"
| "re_sub_plus P repl (c # cs) =
     (if P c then repl @ re_sub_plus P repl (dropWhile P cs)
      else c # re_sub_plus P repl cs)"
  by pat_completeness auto
termination
  by (relation "measure (\<lambda>(P, repl, s). length s)")
     (auto simp: length_dropWhile_le less_Suc_eq_le)

text \<open>\<^verbatim>\<open>s.strip(chars)\<close>: the characters of the set are removed at both ends.\<close>

definition str_strip :: "(codepoint \<Rightarrow> bool) \<Rightarrow> pystr \<Rightarrow> pystr" where
  "str_strip P s = rev (dropWhile P (rev (dropWhile P s)))"

definition sanitize_filename :: "(codepoint \<Rightarrow> pystr) \<Rightarrow> pystr \<Rightarrow> pystr" where
  "sanitize_filename nfkd filename =
     (let filename = ascii_fold nfkd filename;
          filename = filter is_kept filename;
          filename = re_sub_plus is_sep (py ''-'') filename;
          filename = re_sub_plus is_dot (py ''.'') filename;
          filename = str_strip is_edge filename
      in filename)"

text \<open>No two neighbours of a string are both in the class \<open>P\<close>.\<close>

fun no_run :: "('a \<Rightarrow> bool) \<Rightarrow> 'a list \<Rightarrow> bool" where
  "no_run P (x # y # zs) = (\<not> (P x \<and> P y) \<and> no_run P (y # zs))"
| "no_run P _ = True"

text \<open>
  A name as the sanitizer leaves it, said without the sanitizer: not empty, made of ASCII
  letters, digits, hyphens and dots, without two hyphens or two dots in a row, and with a
  letter or a digit at both ends.
\<close>

definition clean_name :: "pystr \<Rightarrow> bool" where
  "clean_name x =
     (x \<noteq> [] \<and> list_all (\<lambda>c. is_alnum c \<or> c = 45 \<or> c = 46) x \<and>
      no_run is_sep x \<and> no_run is_dot x \<and> \<not> is_edge (hd x) \<and> \<not> is_edge (last x))"

section \<open>Numbers as Python prints and rounds them\<close>

text \<open>\<^verbatim>\<open>str(n)\<close> for an integer: its decimal digits, with a minus sign when negative.\<close>

fun str_nat :: "nat \<Rightarrow> pystr" where
  "str_nat n = (if n < 10 then [48 + n] else str_nat (n div 10) @ [48 + n mod 10])"

declare str_nat.simps [simp del]

definition str_int :: "int \<Rightarrow> pystr" where
  "str_int i = (if i < 0 then 45 # str_nat (nat (- i)) else str_nat (nat i))"

text \<open>
  \<^verbatim>\<open>round(x, 0)\<close> on a float rounds the exact value of \<open>x\<close> to the nearest integer and
  a value half way between two integers to the even one.
\<close>

definition round_half_even :: "rat \<Rightarrow> int" where
  "round_half_even x =
     (let f = \<lfloor>x\<rfloor>; d = x - of_int f
      in if d < 1 / 2 then f else if 1 / 2 < d then f + 1
         else if even f then f else f + 1)"

text \<open>
  A Python float is an IEEE 754 binary64 number: a rational with a significand of 53 bits.
  The true division of two integers and the product of two floats are the exact results
  rounded to the nearest such number, ties to the even significand. \<open>bits n\<close> is the
  length of \<open>n\<close> in binary, \<open>ilog2 x\<close> the exponent \<open>e\<close> with \<open>2\<^sup>e \<le> x < 2\<^sup>e\<^sup>+\<^sup>1\<close> of a
  positive rational, and \<open>fl x\<close> the float nearest to \<open>x\<close>. The exponent range of binary64
  is not modelled: the values rounded here lie between \<open>1 / n\<close> and 100 for a list length
  \<open>n\<close>, far inside it.
\<close>

function bits :: "int \<Rightarrow> nat" where
  "bits n = (if n \<le> 0 then 0 else Suc (bits (n div 2)))"
  by pat_completeness auto
termination
  by (relation "measure nat") auto

declare bits.simps [simp del]

definition ilog2 :: "rat \<Rightarrow> int" where
  "ilog2 x =
     (let (a, b) = quotient_of x;
          d = int (bits a) - int (bits b)
      in if 2 powi d \<le> x then d else d - 1)"

definition fl :: "rat \<Rightarrow> rat" where
  "fl x =
     (if x = 0 then 0
      else let ulp = 2 powi (ilog2 \<bar>x\<bar> - 52)
           in of_int (round_half_even (x / ulp)) * ulp)"

text \<open>
  \<^verbatim>\<open>
  pcentComplet = str(int(round((checklistComplete / len(checkItems)) * 100, 0))) + '%'
  \<close>
  for \<open>checklistComplete\<close> complete items among \<open>len_checkItems\<close> items.
\<close>

definition percent_string :: "nat \<Rightarrow> nat \<Rightarrow> pystr" where
  "percent_string checklistComplete len_checkItems =
     str_int (round_half_even (fl (fl (of_nat checklistComplete / of_nat len_checkItems) * 100)))
       @ py ''%''"

section \<open>Data received from the service\<close>

text \<open>
  The script reads parsed JSON. Each object is a record of the fields the script reads
  from it; positions are JSON numbers, dates are strings or \<^verbatim>\<open>null\<close>. The keys
  \<^verbatim>\<open>checklists\<close>, \<^verbatim>\<open>actions\<close> and \<^verbatim>\<open>attachments\<close> of a card are tested with \<^verbatim>\<open>in\<close>
  before they are read, so they are optional. The flag \<^verbatim>\<open>closed\<close> is only ever passed to
  \<^verbatim>\<open>str\<close>, so it is kept as the JSON scalar it is.
\<close>

datatype jvalue = JNull | JBool bool | JNum int | JStr pystr

fun str_json :: "jvalue \<Rightarrow> pystr" where
  "str_json JNull = py ''None''"
| "str_json (JBool True) = py ''True''"
| "str_json (JBool False) = py ''False''"
| "str_json (JNum n) = str_int n"
| "str_json (JStr s) = s"

record board =
  bd_id :: pystr
  bd_name :: pystr
  bd_desc :: pystr

record lst =
  ls_id :: pystr
  ls_name :: pystr
  ls_pos :: rat

record label =
  lb_name :: pystr

record checkItem =
  ci_id :: pystr
  ci_name :: pystr
  ci_pos :: rat
  ci_state :: pystr

record checklist =
  cl_name :: pystr
  cl_pos :: rat
  cl_checkItems :: "checkItem list"

text \<open>
  An action: its type and date, and the fields read for the two types the script asks
  for: \<^verbatim>\<open>data.checkItem.id\<close> of a state update, \<^verbatim>\<open>memberCreator[user_name]\<close> and
  \<^verbatim>\<open>data.text\<close> of a comment.
\<close>

record action =
  ac_type :: pystr
  ac_date :: pystr
  ac_checkItem_id :: pystr
  ac_memberCreator :: pystr
  ac_text :: pystr

record attachment =
  at_name :: pystr
  at_url :: pystr
  at_date :: pystr

record card =
  cd_id :: pystr
  cd_name :: pystr
  cd_desc :: pystr
  cd_idList :: pystr
  cd_labels :: "label list"
  cd_start :: "pystr option"
  cd_due :: "pystr option"
  cd_dateLastActivity :: "pystr option"
  cd_closed :: jvalue
  cd_idShort :: int
  cd_shortUrl :: pystr
  cd_checklists :: "checklist list option"
  cd_actions :: "action list option"
  cd_attachments :: "attachment list option"

text \<open>
  What lies outside the script. \<open>fmt_date\<close> and \<open>fmt_datetime\<close> are
  \<^verbatim>\<open>convert_UTC_to_Local_Datetime(d).strftime(...)\<close> with the two configured formats;
  \<open>unicode_nfkd\<close> is the decomposition table of the sanitizer.
\<close>

record env =
  fmt_date :: "pystr \<Rightarrow> pystr"
  fmt_datetime :: "pystr \<Rightarrow> pystr"
  unicode_nfkd :: "codepoint \<Rightarrow> pystr"

text \<open>
  A request either raises (no connection, proxy failure) or returns a status code and a
  body. The service is a function from what is asked to the answer. The disk under
  \<^verbatim>\<open>./exports/\<close> is part of the outside as well: \<open>w_removable\<close> tells whether
  \<^verbatim>\<open>os.remove\<close> succeeds on a file, \<open>w_writable\<close> whether a file of that path can be
  created and written (a name that is too long cannot).
\<close>

datatype 'a response = TransportError | Response nat 'a

record world =
  w_boards :: "board list response"
  w_lists :: "pystr \<Rightarrow> lst list response"
  w_cards :: "pystr \<Rightarrow> card list response"
  w_card :: "pystr \<Rightarrow> card response"
  w_download :: "pystr \<Rightarrow> pystr response"
  w_removable :: "pystr \<Rightarrow> bool"
  w_writable :: "pystr \<Rightarrow> bool"

text \<open>
  How a run ends early: \<^verbatim>\<open>sys.exit()\<close>, an exception of \<^verbatim>\<open>requests\<close> that nothing
  catches, an index out of range, the end of the standard input at the prompt, or a file
  that cannot be written.
\<close>

datatype py_error = SysExit | ConnectionError | IndexError | EOFError | OSError

section \<open>Steps 1 to 3: boards, selection, lists\<close>

text \<open>
  \<^verbatim>\<open>
  try:
      response = requests.request("GET",url,proxies=proxies,params=query,headers=headers)
  except:
      print("Oops, an error occurred.")
      sys.exit()
  if response.status_code == 200:
      ...
      boards = sorted(boards, key=lambda x: x[1])
  else:
      ...
      sys.exit()
  \<close>
\<close>

definition get_boards :: "world \<Rightarrow> py_error + board list" where
  "get_boards w =
     (case w_boards w of
        TransportError \<Rightarrow> Inl SysExit
      | Response status_code json_data \<Rightarrow>
          if status_code = 200 then Inr (sort_key bd_name json_data) else Inl SysExit)"

text \<open>
  The prompt. Each element of the input is what \<^verbatim>\<open>int(input(...))\<close> makes of one line:
  a number, or \<open>None\<close> when it raises \<^verbatim>\<open>ValueError\<close>. An answer out of range raises
  \<^verbatim>\<open>ValueError\<close> too, and the loop asks again; at the end of the input \<^verbatim>\<open>input\<close> raises
  \<^verbatim>\<open>EOFError\<close>, which nothing catches. The result is the number and the input left.
\<close>

fun prompt_loop :: "nat \<Rightarrow> int option list \<Rightarrow> py_error + (nat \<times> int option list)" where
  "prompt_loop n [] = Inl EOFError"
| "prompt_loop n (None # rest) = prompt_loop n rest"
| "prompt_loop n (Some num # rest) =
     (if num < 0 \<or> num \<ge> int n then prompt_loop n rest else Inr (nat num, rest))"

text \<open>
  \<^verbatim>\<open>
  num = 0
  if len(boards) > 1:
      for i in range(len(boards)):
          print( f'{i:4}: {boards[i][1]}')
      while True: ...
  boardId   = boards[num][0]
  \<close>
  The result has the lines displayed (index and name), the input left unread and the
  board selected, or the error raised.
\<close>

record selection =
  sel_displayed :: "(nat \<times> pystr) list"
  sel_stdin :: "int option list"
  sel_board :: "py_error + board"

definition select_board :: "board list \<Rightarrow> int option list \<Rightarrow> selection" where
  "select_board boards stdin =
     (if length boards > 1 then
        (let displayed = map (\<lambda>i. (i, bd_name (boards ! i))) [0 ..< length boards]
         in case prompt_loop (length boards) stdin of
              Inl e \<Rightarrow> \<lparr>sel_displayed = displayed, sel_stdin = [], sel_board = Inl e\<rparr>
            | Inr (num, rest) \<Rightarrow>
                \<lparr>sel_displayed = displayed, sel_stdin = rest,
                 sel_board = (if num < length boards then Inr (boards ! num) else Inl IndexError)\<rparr>)
      else
        \<lparr>sel_displayed = [], sel_stdin = stdin,
         sel_board = (if 0 < length boards then Inr (boards ! 0) else Inl IndexError)\<rparr>)"

text \<open>The lists and the cards are fetched without \<^verbatim>\<open>try\<close>: an exception ends the run.\<close>

definition get_lists :: "world \<Rightarrow> pystr \<Rightarrow> py_error + lst list" where
  "get_lists w boardId =
     (case w_lists w boardId of
        TransportError \<Rightarrow> Inl ConnectionError
      | Response status_code json_data \<Rightarrow>
          if status_code = 200 then Inr (sort_key ls_pos json_data) else Inl SysExit)"

definition get_cards :: "world \<Rightarrow> pystr \<Rightarrow> py_error + card list" where
  "get_cards w boardId =
     (case w_cards w boardId of
        TransportError \<Rightarrow> Inl ConnectionError
      | Response status_code cards \<Rightarrow>
          if status_code = 200 then (if length cards = 0 then Inl SysExit else Inr cards)
          else Inl SysExit)"

fun lists_get_name :: "pystr \<Rightarrow> lst list \<Rightarrow> pystr" where
  "lists_get_name listId [] = []"
| "lists_get_name listId (row # haystack) =
     (if ls_id row = listId then ls_name row else lists_get_name listId haystack)"

section \<open>Step 4: the spreadsheet\<close>

text \<open>\<^verbatim>\<open>sep.join(xs)\<close>.\<close>

fun py_join :: "pystr \<Rightarrow> pystr list \<Rightarrow> pystr" where
  "py_join sep [] = []"
| "py_join sep [x] = x"
| "py_join sep (x # y # zs) = x @ sep @ py_join sep (y # zs)"

text \<open>A date that is \<^verbatim>\<open>null\<close> gives the empty string.\<close>

definition opt_date :: "(pystr \<Rightarrow> pystr) \<Rightarrow> pystr option \<Rightarrow> pystr" where
  "opt_date fmt d = (case d of None \<Rightarrow> [] | Some strDate \<Rightarrow> fmt strDate)"

text \<open>
  One data row: the nine cells written for a card, in the order of the columns. The cells
  are written as they are, without escaping.
\<close>

record row =
  r_listName :: pystr
  r_name :: pystr
  r_desc :: pystr
  r_cardStart :: pystr
  r_cardDue :: pystr
  r_cardLastActivity :: pystr
  r_cardLabels :: pystr
  r_idShort :: int
  r_shortUrl :: pystr

definition card_row :: "env \<Rightarrow> lst list \<Rightarrow> card \<Rightarrow> row" where
  "card_row e lsts c =
     \<lparr>r_listName = lists_get_name (cd_idList c) lsts,
      r_name = cd_name c,
      r_desc = cd_desc c,
      r_cardStart = opt_date (fmt_date e) (cd_start c),
      r_cardDue = opt_date (fmt_datetime e) (cd_due c),
      r_cardLastActivity = opt_date (fmt_datetime e) (cd_dateLastActivity c),
      r_cardLabels =
        (if length (cd_labels c) > 0
         then py_join (py '', '') (map lb_name (filter (\<lambda>l. lb_name l \<noteq> []) (cd_labels c)))
         else []),
      r_idShort = cd_idShort c,
      r_shortUrl = cd_shortUrl c\<rparr>"

text \<open>
  The two sheets: the data rows written so far, each with its row number, and the two row
  counters.
  \<^verbatim>\<open>
  if str(cards[i]['closed']) == 'False':
      worksheet1.write(worksheet1cellRow, ...)
      worksheet1cellRow += 1
  else:
      worksheet2.write(worksheet2cellRow, ...)
      worksheet2cellRow += 1
  \<close>
\<close>

record workbook =
  worksheet1 :: "(nat \<times> row) list"
  worksheet2 :: "(nat \<times> row) list"
  worksheet1cellRow :: nat
  worksheet2cellRow :: nat

definition is_open :: "card \<Rightarrow> bool" where
  "is_open c = (str_json (cd_closed c) = py ''False'')"

definition write_card :: "env \<Rightarrow> lst list \<Rightarrow> workbook \<Rightarrow> card \<Rightarrow> workbook" where
  "write_card e lsts wb c =
     (if is_open c
      then wb\<lparr>worksheet1 := worksheet1 wb @ [(worksheet1cellRow wb, card_row e lsts c)],
              worksheet1cellRow := worksheet1cellRow wb + 1\<rparr>
      else wb\<lparr>worksheet2 := worksheet2 wb @ [(worksheet2cellRow wb, card_row e lsts c)],
              worksheet2cellRow := worksheet2cellRow wb + 1\<rparr>)"

fun write_cards :: "env \<Rightarrow> lst list \<Rightarrow> workbook \<Rightarrow> card list \<Rightarrow> workbook" where
  "write_cards e lsts wb [] = wb"
| "write_cards e lsts wb (c # cards) = write_cards e lsts (write_card e lsts wb c) cards"

definition new_workbook :: workbook where
  "new_workbook = \<lparr>worksheet1 = [], worksheet2 = [], worksheet1cellRow = 1, worksheet2cellRow = 1\<rparr>"

section \<open>Step 4, continued: one document per card\<close>

subsection \<open>The rendering context\<close>

record item_entry =
  ie_name :: pystr
  ie_pos :: rat
  ie_state :: pystr
  ie_date :: pystr

record checklist_entry =
  ce_name :: pystr
  ce_pos :: rat
  ce_checkItems :: "item_entry list"
  ce_pcentComplet :: pystr

record action_entry =
  ae_date :: pystr
  ae_author :: pystr
  ae_text :: pystr

record attachment_entry =
  te_fileName :: pystr
  te_date :: pystr

record doc_context =
  ctx_title :: pystr
  ctx_list :: pystr
  ctx_labels :: pystr
  ctx_startDate :: pystr
  ctx_dueDate :: pystr
  ctx_lastActivityDate :: pystr
  ctx_description :: pystr
  ctx_checklists :: "checklist_entry list"
  ctx_actions :: "action_entry list"
  ctx_attachments :: "attachment_entry list"

text \<open>
  \<^verbatim>\<open>
  cardLabels = ''
  if len(card['labels']) > 0:
      arrLabels = []
      for i in range(len(card['labels'])):
          if card['labels'][i]['name'] != "":
              arrLabels.append( escape_xml(card['labels'][i]['name']) )
      cardLabels = ", ".join(arrLabels)
  \<close>
\<close>

definition cardLabels :: "card \<Rightarrow> pystr" where
  "cardLabels c =
     (if length (cd_labels c) > 0
      then py_join (py '', '')
             (map (\<lambda>l. escape_xml (lb_name l)) (filter (\<lambda>l. lb_name l \<noteq> []) (cd_labels c)))
      else [])"

text \<open>
  The scan of the actions for one check-item: the loop over \<open>k\<close> with its \<^verbatim>\<open>break\<close>.
  \<^verbatim>\<open>
  for k in range(len(card['actions'])):
      if card['actions'][k]['type'] == 'updateCheckItemStateOnCard':
          if card['actions'][k]['data']['checkItem']['id'] == card['checklists'][i]['checkItems'][j]['id']:
              updateCheckItemStateDate = convert_UTC_to_Local_Datetime(card['actions'][k]['date']).strftime(...)
              break
  \<close>
\<close>

fun scan_actions :: "env \<Rightarrow> pystr \<Rightarrow> action list \<Rightarrow> pystr" where
  "scan_actions e item_id [] = []"
| "scan_actions e item_id (a # actions) =
     (if ac_type a = py ''updateCheckItemStateOnCard''
      then (if ac_checkItem_id a = item_id then fmt_date e (ac_date a)
            else scan_actions e item_id actions)
      else scan_actions e item_id actions)"

definition updateCheckItemStateDate :: "env \<Rightarrow> card \<Rightarrow> checkItem \<Rightarrow> pystr" where
  "updateCheckItemStateDate e c item =
     (case cd_actions c of
        None \<Rightarrow> []
      | Some actions \<Rightarrow>
          if length actions > 0 then scan_actions e (ci_id item) actions else [])"

text \<open>
  The entry pushed for one checklist: its check-items in the order of their positions and
  the percentage of complete ones.
\<close>

definition checkItem_entry :: "env \<Rightarrow> card \<Rightarrow> checkItem \<Rightarrow> item_entry" where
  "checkItem_entry e c item =
     \<lparr>ie_name = escape_xml (ci_name item), ie_pos = ci_pos item, ie_state = ci_state item,
      ie_date = updateCheckItemStateDate e c item\<rparr>"

text \<open>
  The loop over the check-items of a checklist, with its counter and the list it fills.
  \<^verbatim>\<open>
  checklistComplete = 0
  for j in range(len(card['checklists'][i]['checkItems'])):
      ...
      if card['checklists'][i]['checkItems'][j]['state'] == 'complete':
          checklistComplete += 1
      checkItems.append([...])
  \<close>
\<close>

fun checkItems_loop ::
  "env \<Rightarrow> card \<Rightarrow> checkItem list \<Rightarrow> nat \<Rightarrow> item_entry list \<Rightarrow> nat \<times> item_entry list" where
  "checkItems_loop e c [] checklistComplete checkItems = (checklistComplete, checkItems)"
| "checkItems_loop e c (item # rest) checklistComplete checkItems =
     checkItems_loop e c rest
       (if ci_state item = py ''complete'' then checklistComplete + 1 else checklistComplete)
       (checkItems @ [checkItem_entry e c item])"

definition checklist_entry_of :: "env \<Rightarrow> card \<Rightarrow> checklist \<Rightarrow> checklist_entry" where
  "checklist_entry_of e c cl =
     (if cl_checkItems cl \<noteq> [] \<and> length (cl_checkItems cl) > 0
      then
        (let (checklistComplete, checkItems) = checkItems_loop e c (cl_checkItems cl) 0 [];
             checkItems = (if length checkItems > 0 then sort_key ie_pos checkItems
                           else checkItems)
         in \<lparr>ce_name = escape_xml (cl_name cl), ce_pos = cl_pos cl,
             ce_checkItems = checkItems,
             ce_pcentComplet = percent_string checklistComplete (length (cl_checkItems cl))\<rparr>)
      else \<lparr>ce_name = escape_xml (cl_name cl), ce_pos = cl_pos cl,
             ce_checkItems = [], ce_pcentComplet = []\<rparr>)"

text \<open>
  The loop over the checklists. A checklist without a name is skipped, and the list built
  so far is sorted again at the end of every round.
\<close>

fun checklists_loop ::
  "env \<Rightarrow> card \<Rightarrow> checklist_entry list \<Rightarrow> checklist list \<Rightarrow> checklist_entry list" where
  "checklists_loop e c checklists [] = checklists"
| "checklists_loop e c checklists (cl # rest) =
     (let checklists = (if cl_name cl \<noteq> [] then checklists @ [checklist_entry_of e c cl]
                        else checklists);
          checklists = (if length checklists > 0 then sort_key ce_pos checklists
                        else checklists)
      in checklists_loop e c checklists rest)"

definition build_checklists :: "env \<Rightarrow> card \<Rightarrow> checklist_entry list" where
  "build_checklists e c =
     (case cd_checklists c of
        None \<Rightarrow> []
      | Some cls \<Rightarrow> if length cls > 0 then checklists_loop e c [] cls else [])"

definition build_actions :: "env \<Rightarrow> card \<Rightarrow> action_entry list" where
  "build_actions e c =
     (case cd_actions c of
        None \<Rightarrow> []
      | Some actions \<Rightarrow>
          if length actions > 0
          then map (\<lambda>a. \<lparr>ae_date = fmt_datetime e (ac_date a),
                           ae_author = escape_xml (ac_memberCreator a),
                           ae_text = escape_xml (ac_text a)\<rparr>)
                 (filter (\<lambda>a. ac_type a = py ''commentCard'') actions)
          else [])"

text \<open>
  \<^verbatim>\<open>
  context["title"] = escape_xml(card['name'])
  context["list"] = escape_xml(lists_get_name(card['idList'], lists))
  context["labels"] = escape_xml(cardLabels)
  ...
  context["description"] = escape_xml(card['desc'])
  \<close>
\<close>

definition build_context ::
  "env \<Rightarrow> lst list \<Rightarrow> card \<Rightarrow> attachment_entry list \<Rightarrow> doc_context" where
  "build_context e lsts c attachments =
     \<lparr>ctx_title = escape_xml (cd_name c),
      ctx_list = escape_xml (lists_get_name (cd_idList c) lsts),
      ctx_labels = escape_xml (cardLabels c),
      ctx_startDate = opt_date (fmt_date e) (cd_start c),
      ctx_dueDate = opt_date (fmt_datetime e) (cd_due c),
      ctx_lastActivityDate = opt_date (fmt_datetime e) (cd_dateLastActivity c),
      ctx_description = escape_xml (cd_desc c),
      ctx_checklists = build_checklists e c,
      ctx_actions = build_actions e c,
      ctx_attachments = attachments\<rparr>"

subsection \<open>Attachments, rendering and saving\<close>

text \<open>
  The effects of the document pass: the files under \<^verbatim>\<open>./exports/\<close> (an attachment is its
  bytes, a document the context it was rendered from, the spreadsheet its workbook), the
  calls of \<^verbatim>\<open>document.save\<close> in the order they were made, and what was printed.
\<close>

datatype disk_file = Bytes pystr | Docx doc_context | Xlsx workbook

datatype message =
    Msg_card int pystr
  | Msg_downloading pystr
  | Msg_oops
  | Msg_cannot_download pystr
  | Msg_response_code nat

record state =
  st_files :: "pystr \<rightharpoonup> disk_file"
  st_saved :: "(pystr \<times> doc_context) list"
  st_out :: "message list"

definition path :: pystr where
  "path = py ''./exports/''"

definition pathToCards :: pystr where
  "pathToCards = path @ py ''cards/''"

definition pathToArchived :: pystr where
  "pathToArchived = path @ py ''archived/''"

definition pathToAttachments :: pystr where
  "pathToAttachments = path @ py ''attachments/''"

text \<open>
  \<^verbatim>\<open>
  def remove_if_exists(fileName):
      if path_exists(fileName):
          try:
              remove(fileName)
          except:
              print("Oops, an error occurred.")
              print(f"'{fileName}' already exists.\nYou should rename or delete '{boardFileName}.")
              sys.exit()
  \<close>
\<close>

definition remove_if_exists :: "world \<Rightarrow> pystr \<Rightarrow> state \<Rightarrow> py_error + state" where
  "remove_if_exists w fileName st =
     (case st_files st fileName of
        None \<Rightarrow> Inr st
      | Some f \<Rightarrow>
          if w_removable w fileName
          then Inr (st\<lparr>st_files := (st_files st)(fileName := None)\<rparr>)
          else Inl SysExit)"

definition print :: "message list \<Rightarrow> state \<Rightarrow> state" where
  "print ms st = st\<lparr>st_out := st_out st @ ms\<rparr>"

text \<open>
  \<^verbatim>\<open>
  for i in range(len(card['attachments'])):
      attachmentFileName = sanitize_filename( str(card['idShort']) + "-" + str(card['attachments'][i]['name']) )
      remove_if_exists(pathToAttachments + attachmentFileName)
      url = card['attachments'][i]['url']
      print(f"  Downloading '{attachmentFileName}'")
      try:
          response = requests.request("GET",url,headers=attachmentsHeaders)
      except:
          print("  Oops, an error occurred.")
          print(f"  Cannot download '{attachmentFileName}'")
          print(f"  Response code : {response.status_code}")
          continue
      bytesio_object = BytesIO(response.content)
      with open(pathToAttachments + attachmentFileName, "wb") as f:
          f.write(bytesio_object.getbuffer())
      attachments.append([attachmentFileName, ...])
  \<close>
  The status code printed in the handler is the one of the response received last, which
  the variable \<^verbatim>\<open>response\<close> still holds: the loop carries it as \<open>status_code\<close>. The status
  code of the download itself is not looked at. The file is opened outside the \<^verbatim>\<open>try\<close>:
  when it cannot be written the exception ends the run.
\<close>

fun attachments_loop ::
  "env \<Rightarrow> world \<Rightarrow> card \<Rightarrow> attachment list \<Rightarrow> state \<Rightarrow> attachment_entry list \<Rightarrow> nat \<Rightarrow>
     py_error + (state \<times> attachment_entry list)" where
  "attachments_loop e w c [] st attachments status_code = Inr (st, attachments)"
| "attachments_loop e w c (a # rest) st attachments status_code =
     (let attachmentFileName =
            sanitize_filename (unicode_nfkd e) (str_int (cd_idShort c) @ py ''-'' @ at_name a)
      in case remove_if_exists w (pathToAttachments @ attachmentFileName) st of
           Inl err \<Rightarrow> Inl err
         | Inr st \<Rightarrow>
             (let st = print [Msg_downloading attachmentFileName] st
              in case w_download w (at_url a) of
                   TransportError \<Rightarrow>
                     attachments_loop e w c rest
                       (print [Msg_oops, Msg_cannot_download attachmentFileName,
                               Msg_response_code status_code] st)
                       attachments status_code
                 | Response code content \<Rightarrow>
                     if w_writable w (pathToAttachments @ attachmentFileName)
                     then attachments_loop e w c rest
                            (st\<lparr>st_files := (st_files st)
                                  (pathToAttachments @ attachmentFileName \<mapsto> Bytes content)\<rparr>)
                            (attachments @
                               [\<lparr>te_fileName = attachmentFileName,
                                 te_date = fmt_date e (at_date a)\<rparr>])
                            code
                     else Inl OSError))"

definition download_attachments ::
  "env \<Rightarrow> world \<Rightarrow> card \<Rightarrow> state \<Rightarrow> py_error + (state \<times> attachment_entry list)" where
  "download_attachments e w c st =
     (case cd_attachments c of
        None \<Rightarrow> Inr (st, [])
      | Some atts \<Rightarrow>
          if length atts > 0 then attachments_loop e w c atts st [] 200 else Inr (st, []))"

text \<open>
  The document of a card is saved in one of the two directories.
  \<^verbatim>\<open>
  outputFileName = sanitize_filename(card['name'])
  outputFileName = outputFileName[:250] + ".docx"
  if str(card['closed']) == 'False':
      remove_if_exists(pathToCards + outputFileName)
      document.save(pathToCards + outputFileName)
  else:
      remove_if_exists(pathToArchived + outputFileName)
      document.save(pathToArchived + outputFileName)
  \<close>
\<close>

definition outputFileName :: "env \<Rightarrow> card \<Rightarrow> pystr" where
  "outputFileName e c = take 250 (sanitize_filename (unicode_nfkd e) (cd_name c)) @ py ''.docx''"

definition save :: "world \<Rightarrow> pystr \<Rightarrow> doc_context \<Rightarrow> state \<Rightarrow> py_error + state" where
  "save w fileName ctx st =
     (if w_writable w fileName
      then Inr (st\<lparr>st_files := (st_files st)(fileName \<mapsto> Docx ctx),
                   st_saved := st_saved st @ [(fileName, ctx)]\<rparr>)
      else Inl OSError)"

definition save_document ::
  "env \<Rightarrow> world \<Rightarrow> card \<Rightarrow> doc_context \<Rightarrow> state \<Rightarrow> py_error + state" where
  "save_document e w c ctx st =
     (if is_open c
      then (case remove_if_exists w (pathToCards @ outputFileName e c) st of
              Inl err \<Rightarrow> Inl err
            | Inr st \<Rightarrow> save w (pathToCards @ outputFileName e c) ctx st)
      else (case remove_if_exists w (pathToArchived @ outputFileName e c) st of
              Inl err \<Rightarrow> Inl err
            | Inr st \<Rightarrow> save w (pathToArchived @ outputFileName e c) ctx st))"

text \<open>
  One round of the loop over the cards: the card is fetched again in full, without
  \<^verbatim>\<open>try\<close>; any status but 200 ends the run.
\<close>

definition export_card :: "env \<Rightarrow> world \<Rightarrow> lst list \<Rightarrow> state \<Rightarrow> card \<Rightarrow> py_error + state" where
  "export_card e w lsts st summary =
     (case w_card w (cd_id summary) of
        TransportError \<Rightarrow> Inl ConnectionError
      | Response status_code c \<Rightarrow>
          if status_code = 200 then
            (case download_attachments e w c (print [Msg_card (cd_idShort c) (cd_name c)] st) of
               Inl err \<Rightarrow> Inl err
             | Inr (st, attachments) \<Rightarrow>
                 save_document e w c (build_context e lsts c attachments) st)
          else Inl SysExit)"

fun export_cards :: "env \<Rightarrow> world \<Rightarrow> lst list \<Rightarrow> state \<Rightarrow> card list \<Rightarrow> py_error + state" where
  "export_cards e w lsts st [] = Inr st"
| "export_cards e w lsts st (c # cards) =
     (case export_card e w lsts st c of
        Inl err \<Rightarrow> Inl err
      | Inr st' \<Rightarrow> export_cards e w lsts st' cards)"

text \<open>
  The spreadsheet is written to a file named after the board, once its rows are made.
  \<^verbatim>\<open>
  boardFileName = sanitize_filename(boardName)
  boardFileName = boardFileName[:250] + ".xlsx"
  remove_if_exists(path + boardFileName)
  workbook = xlsxwriter.Workbook(path + boardFileName)
  ...
  workbook.close()
  \<close>
\<close>

definition boardFileName :: "env \<Rightarrow> board \<Rightarrow> pystr" where
  "boardFileName e b = take 250 (sanitize_filename (unicode_nfkd e) (bd_name b)) @ py ''.xlsx''"

definition export_board ::
  "env \<Rightarrow> world \<Rightarrow> lst list \<Rightarrow> board \<Rightarrow> card list \<Rightarrow> state \<Rightarrow> py_error + (workbook \<times> state)" where
  "export_board e w lsts b cards st =
     (case remove_if_exists w (path @ boardFileName e b) st of
        Inl err \<Rightarrow> Inl err
      | Inr st \<Rightarrow>
          (let workbook = write_cards e lsts new_workbook cards
           in if w_writable w (path @ boardFileName e b)
              then Inr (workbook,
                        st\<lparr>st_files := (st_files st)(path @ boardFileName e b \<mapsto> Xlsx workbook)\<rparr>)
              else Inl OSError))"

text \<open>
  The whole run, from the boards to the last document. The workbook is written from the
  cards of the bulk request before the first document is made.
\<close>

definition run ::
  "env \<Rightarrow> world \<Rightarrow> int option list \<Rightarrow> state \<Rightarrow> py_error + (workbook \<times> state)" where
  "run e w stdin st =
     (case get_boards w of
        Inl err \<Rightarrow> Inl err
      | Inr boards \<Rightarrow>
          (case sel_board (select_board boards stdin) of
             Inl err \<Rightarrow> Inl err
           | Inr b \<Rightarrow>
               (case get_lists w (bd_id b) of
                  Inl err \<Rightarrow> Inl err
                | Inr lsts \<Rightarrow>
                    (case get_cards w (bd_id b) of
                       Inl err \<Rightarrow> Inl err
                     | Inr cards \<Rightarrow>
                         (case export_board e w lsts b cards st of
                            Inl err \<Rightarrow> Inl err
                          | Inr (workbook, st) \<Rightarrow>
                              (case export_cards e w lsts st cards of
                                 Inl err \<Rightarrow> Inl err
                               | Inr st' \<Rightarrow> Inr (workbook, st')))))))"

text \<open>
  Notions used to state where the documents go and what they hold: the path under which
  the document of a card is saved, the card that the request for the full card yields,
  the attachments of a card whose download did not raise, and the context made of a
  card and these attachments.
\<close>

definition doc_path :: "env \<Rightarrow> card \<Rightarrow> pystr" where
  \<comment> \<open>the path under which \<open>save_document\<close> saves the document of a card\<close>
  "doc_path e c = (if is_open c then pathToCards else pathToArchived) @ outputFileName e c"

definition detail :: "world \<Rightarrow> card \<Rightarrow> card option" where
  \<comment> \<open>the card that the request of \<open>export_card\<close> yields, when it yields one\<close>
  "detail w summary =
     (case w_card w (cd_id summary) of
        TransportError \<Rightarrow> None
      | Response status_code c \<Rightarrow> if status_code = 200 then Some c else None)"

definition downloaded :: "world \<Rightarrow> attachment \<Rightarrow> bool" where
  "downloaded w a = (case w_download w (at_url a) of TransportError \<Rightarrow> False | Response code content \<Rightarrow> True)"

definition attachment_entry_of :: "env \<Rightarrow> card \<Rightarrow> attachment \<Rightarrow> attachment_entry" where
  "attachment_entry_of e c a =
     \<lparr>te_fileName =
        sanitize_filename (unicode_nfkd e) (str_int (cd_idShort c) @ py ''-'' @ at_name a),
      te_date = fmt_date e (at_date a)\<rparr>"

definition attachment_entries :: "env \<Rightarrow> world \<Rightarrow> card \<Rightarrow> attachment_entry list" where
  "attachment_entries e w c =
     (case cd_attachments c of
        None \<Rightarrow> []
      | Some atts \<Rightarrow> map (attachment_entry_of e c) (filter (downloaded w) atts))"

definition card_context :: "env \<Rightarrow> world \<Rightarrow> lst list \<Rightarrow> card \<Rightarrow> doc_context" where
  "card_context e w lsts c = build_context e lsts c (attachment_entries e w c)"

section \<open>Sample values\<close>

text \<open>
  Values at which the theorems below are instantiated: an environment that prints a date
  as it was received and decomposes no character, an export directory without files, and
  a service that answers no request, with a disk that lets every file be removed and
  written.
\<close>

definition sample_env :: env where
  "sample_env = \<lparr>fmt_date = (\<lambda>d. d), fmt_datetime = (\<lambda>d. d), unicode_nfkd = nfkd_plain\<rparr>"

definition empty_state :: state where
  "empty_state = \<lparr>st_files = Map.empty, st_saved = [], st_out = []\<rparr>"

definition no_service :: world where
  "no_service =
     \<lparr>w_boards = TransportError, w_lists = (\<lambda>_. TransportError),
      w_cards = (\<lambda>_. TransportError), w_card = (\<lambda>_. TransportError),
      w_download = (\<lambda>_. TransportError),
      w_removable = (\<lambda>_. True), w_writable = (\<lambda>_. True)\<rparr>"

definition sample_board :: "string \<Rightarrow> board" where
  "sample_board n = \<lparr>bd_id = py n, bd_name = py n, bd_desc = []\<rparr>"

definition state_update :: "string \<Rightarrow> string \<Rightarrow> action" where
  "state_update item_id d =
     \<lparr>ac_type = py ''updateCheckItemStateOnCard'', ac_date = py d,
      ac_checkItem_id = py item_id, ac_memberCreator = [], ac_text = []\<rparr>"

definition sample_card :: card where
  "sample_card =
     \<lparr>cd_id = py ''c1'', cd_name = py ''Card'', cd_desc = [], cd_idList = py ''l1'',
      cd_labels = [], cd_start = None, cd_due = None, cd_dateLastActivity = None,
      cd_closed = JBool False, cd_idShort = 1, cd_shortUrl = [],
      cd_checklists = None, cd_actions = None, cd_attachments = None\<rparr>"

definition sample_item :: "string \<Rightarrow> string \<Rightarrow> checkItem" where
  "sample_item item_id st = \<lparr>ci_id = py item_id, ci_name = py item_id, ci_pos = 1, ci_state = py st\<rparr>"

definition sample_world :: "card list \<Rightarrow> world" where
  \<comment> \<open>a service that knows the given cards in full and answers no other request\<close>
  "sample_world cards =
     no_service\<lparr>w_card := (\<lambda>i. case find (\<lambda>c. cd_id c = i) cards of
                                   None \<Rightarrow> Response 404 sample_card
                                 | Some c \<Rightarrow> Response 200 c)\<rparr>"

definition open_card :: card where
  "open_card = sample_card\<lparr>cd_id := py ''a'', cd_name := py ''A''\<rparr>"

definition archived_card :: card where
  "archived_card = sample_card\<lparr>cd_id := py ''b'', cd_name := py ''B'', cd_closed := JBool True\<rparr>"

definition labelled_card :: card where
  "labelled_card = sample_card\<lparr>cd_name := py ''A&B'', cd_labels := [\<lparr>lb_name = py ''A&B''\<rparr>]\<rparr>"

definition card_with_attachment :: card where
  "card_with_attachment =
     sample_card\<lparr>cd_attachments :=
       Some [\<lparr>at_name = py ''f.txt'', at_url = py ''u'', at_date = py ''d''\<rparr>]\<rparr>"

definition sample_checklist :: "checkItem list \<Rightarrow> checklist" where
  "sample_checklist items = \<lparr>cl_name = py ''todo'', cl_pos = 1, cl_checkItems = items\<rparr>"

definition card_one_of_three :: card where
  "card_one_of_three =
     sample_card\<lparr>cd_checklists :=
       Some [sample_checklist [sample_item ''i'' ''incomplete'', sample_item ''j'' ''complete'',
                               sample_item ''k'' ''incomplete'']]\<rparr>"

definition changing_world :: world where
  \<comment> \<open>a service whose card is open in the bulk answer and archived when fetched in full\<close>
  "changing_world =
     no_service\<lparr>w_boards := Response 200 [sample_board ''B''],
                w_lists := (\<lambda>_. Response 200 []),
                w_cards := (\<lambda>_. Response 200 [open_card]),
                w_card := (\<lambda>_. Response 200 (open_card\<lparr>cd_closed := JBool True\<rparr>))\<rparr>"

definition open_card_bang :: card where
  "open_card_bang = sample_card\<lparr>cd_id := py ''b'', cd_name := py ''A!''\<rparr>"

definition card_two_of_three :: card where
  "card_two_of_three =
     sample_card\<lparr>cd_checklists :=
       Some [sample_checklist [sample_item ''i'' ''complete'', sample_item ''j'' ''incomplete'',
                               sample_item ''k'' ''complete'']]\<rparr>"

section \<open>Properties of the escape function\<close>

lemma str_replace_single:
  "str_replace [c] new s = concat (map (\<lambda>x. if x = c then new else [x]) s)"
proof (induction s)
  case Nil
  show ?case by (simp add: str_replace.simps)
next
  case (Cons x xs)
  show ?case
    by (subst str_replace.simps) (simp add: Cons)
qed

text \<open>
  The ampersand is replaced first, so the ampersands that the second and third replacement
  introduce are never touched again: the three passes amount to one pass over the input.
\<close>

lemma escape_xml_concat: "escape_xml s = concat (map esc1 s)"
  by (induction s) (simp_all add: escape_xml_def py_def str_replace_single esc1_def)

lemma unescape_esc1: "unescape_xml (esc1 c @ rest) = c # unescape_xml rest"
  by (simp add: esc1_def py_def unescape_xml.simps(2))

lemma unescape_concat: "unescape_xml (concat (map esc1 s)) = s"
  by (induction s) (simp_all add: unescape_esc1)

lemma str_replace_Nil: "old \<noteq> [] \<Longrightarrow> str_replace old new [] = []"
  by (simp add: str_replace.simps)

lemma str_replace_other_head:
  "str_replace (a # old) new (c # s) = c # str_replace (a # old) new s" if "c \<noteq> a"
  using that by (subst str_replace.simps) simp

lemma str_replace_other_second:
  "str_replace (a # b # old) new (a # c # s) = a # str_replace (a # b # old) new (c # s)"
  if "c \<noteq> b"
  using that by (subst str_replace.simps) simp

lemma str_replace_match:
  "old \<noteq> [] \<Longrightarrow> str_replace old new (old @ s) = new @ str_replace old new s"
  by (subst str_replace.simps) simp

lemma undo_lt_step:
  "str_replace (py ''&lt;'') (py ''<'') (esc1 c @ r) =
     esc_amp_gt c @ str_replace (py ''&lt;'') (py ''<'') r"
proof -
  have "str_replace (py ''&lt;'') (py ''<'') (py ''&lt;'' @ r) =
      py ''<'' @ str_replace (py ''&lt;'') (py ''<'') r"
    by (rule str_replace_match) (simp add: py_def)
  then show ?thesis
    by (simp add: esc1_def esc_amp_gt_def py_def str_replace_other_head str_replace_other_second)
qed

lemma undo_lt:
  "str_replace (py ''&lt;'') (py ''<'') (concat (map esc1 s)) = concat (map esc_amp_gt s)"
  by (induction s) (simp_all add: undo_lt_step, simp add: str_replace_Nil py_def)

lemma undo_gt_step:
  "str_replace (py ''&gt;'') (py ''>'') (esc_amp_gt c @ r) =
     esc_amp c @ str_replace (py ''&gt;'') (py ''>'') r"
proof -
  have "str_replace (py ''&gt;'') (py ''>'') (py ''&gt;'' @ r) =
      py ''>'' @ str_replace (py ''&gt;'') (py ''>'') r"
    by (rule str_replace_match) (simp add: py_def)
  then show ?thesis
    by (simp add: esc_amp_gt_def esc_amp_def py_def str_replace_other_head str_replace_other_second)
qed

lemma undo_gt:
  "str_replace (py ''&gt;'') (py ''>'') (concat (map esc_amp_gt s)) = concat (map esc_amp s)"
  by (induction s) (simp_all add: undo_gt_step, simp add: str_replace_Nil py_def)

lemma undo_amp_step:
  "str_replace (py ''&amp;'') (py ''&'') (esc_amp c @ r) =
     c # str_replace (py ''&amp;'') (py ''&'') r"
proof -
  have "str_replace (py ''&amp;'') (py ''&'') (py ''&amp;'' @ r) =
      py ''&'' @ str_replace (py ''&amp;'') (py ''&'') r"
    by (rule str_replace_match) (simp add: py_def)
  then show ?thesis
    by (simp add: esc_amp_def py_def str_replace_other_head)
qed

lemma undo_amp:
  "str_replace (py ''&amp;'') (py ''&'') (concat (map esc_amp s)) = s"
  by (induction s) (simp_all add: undo_amp_step, simp add: str_replace_Nil py_def)

lemma saxutils_unescape_escape: "saxutils_unescape (escape_xml s) = s"
  by (simp add: saxutils_unescape_def escape_xml_concat undo_lt undo_gt undo_amp)

text \<open>
  C10: decoding the entity references of an escaped string gives the original string back,
  for every input, with the one-pass decoder as well as with the three replacements of
  the standard library, and therefore two different inputs never have the same escaped
  form.
\<close>

theorem escape_xml_reversible:
  "(\<forall>s. unescape_xml (escape_xml s) = s) \<and> (\<forall>s. saxutils_unescape (escape_xml s) = s)
   \<and> inj escape_xml"
proof -
  have r: "\<And>s. unescape_xml (escape_xml s) = s"
    by (simp add: escape_xml_concat unescape_concat)
  have "inj escape_xml"
    by (rule inj_on_inverseI [where g = unescape_xml]) (rule r)
  with r saxutils_unescape_escape show ?thesis by simp
qed

section \<open>Properties of the filename sanitizer\<close>

lemma no_run_Cons:
  "no_run P (c # xs) = ((xs \<noteq> [] \<longrightarrow> \<not> (P c \<and> P (hd xs))) \<and> no_run P xs)"
  by (cases xs) simp_all

lemma no_run_append:
  "no_run P (xs @ ys) =
     (no_run P xs \<and> no_run P ys \<and> (xs \<noteq> [] \<and> ys \<noteq> [] \<longrightarrow> \<not> (P (last xs) \<and> P (hd ys))))"
proof (induction xs)
  case Nil
  show ?case by simp
next
  case (Cons x xs)
  show ?case
    by (cases xs) (use Cons in \<open>auto simp: no_run_Cons\<close>)
qed

lemma no_run_rev: "no_run P (rev xs) = no_run P xs"
  by (induction xs) (auto simp: no_run_append no_run_Cons last_rev)

lemma no_run_dropWhile: "no_run P xs \<Longrightarrow> no_run P (dropWhile Q xs)"
proof -
  assume "no_run P xs"
  then have "no_run P (takeWhile Q xs @ dropWhile Q xs)" by simp
  then show ?thesis unfolding no_run_append by blast
qed

lemma no_run_str_strip: "no_run P s \<Longrightarrow> no_run P (str_strip Q s)"
  by (simp add: str_strip_def no_run_rev no_run_dropWhile)

lemma set_re_sub_plus:
  "set (re_sub_plus P repl s) \<subseteq> set repl \<union> {c \<in> set s. \<not> P c}"
proof (induction P repl s rule: re_sub_plus.induct)
  case (1 P repl)
  show ?case by simp
next
  case (2 P repl c cs)
  show ?case
  proof (cases "P c")
    case True
    with 2 have "set (re_sub_plus P repl (dropWhile P cs)) \<subseteq> set repl \<union> {c \<in> set (dropWhile P cs). \<not> P c}"
      by simp
    moreover have "set (dropWhile P cs) \<subseteq> set cs" by (auto dest: set_dropWhileD)
    ultimately show ?thesis using True by auto
  next
    case False
    with 2 show ?thesis by auto
  qed
qed

lemma re_sub_plus_hd:
  "s \<noteq> [] \<Longrightarrow> hd (re_sub_plus P [r] s) = (if P (hd s) then r else hd s)"
  by (cases s) simp_all

lemma re_sub_plus_Nil_iff: "re_sub_plus P [r] s = [] \<longleftrightarrow> s = []"
  by (cases s) simp_all

lemma no_run_re_sub_plus_aux:
  "repl = [r] \<Longrightarrow> P r \<Longrightarrow> no_run P (re_sub_plus P repl s)"
proof (induction P repl s rule: re_sub_plus.induct)
  case (1 P repl)
  show ?case by simp
next
  case (2 P repl c cs)
  note r = \<open>repl = [r]\<close>
  show ?case
  proof (cases "P c")
    case True
    let ?t = "dropWhile P cs"
    have "?t \<noteq> [] \<Longrightarrow> \<not> P (hd ?t)" by (rule hd_dropWhile)
    then have h: "re_sub_plus P [r] ?t \<noteq> [] \<Longrightarrow> \<not> P (hd (re_sub_plus P [r] ?t))"
      by (simp add: re_sub_plus_Nil_iff re_sub_plus_hd)
    have "no_run P (re_sub_plus P [r] ?t)" using True "2.IH"(1) "2.prems" by simp
    with True h r show ?thesis by (simp add: no_run_Cons)
  next
    case False
    then have "no_run P (re_sub_plus P [r] cs)" using "2.IH"(2) "2.prems" by simp
    with False r show ?thesis by (simp add: no_run_Cons)
  qed
qed

lemma no_run_re_sub_plus: "P r \<Longrightarrow> no_run P (re_sub_plus P [r] s)"
  by (rule no_run_re_sub_plus_aux) simp_all

lemma no_run_re_sub_plus_other_aux:
  "repl = [r] \<Longrightarrow> no_run Q s \<Longrightarrow> \<not> Q r \<Longrightarrow> (\<And>c. P c \<Longrightarrow> \<not> Q c) \<Longrightarrow>
     no_run Q (re_sub_plus P repl s)"
proof (induction P repl s rule: re_sub_plus.induct)
  case (1 P repl)
  show ?case by simp
next
  case (2 P repl c cs)
  note r = \<open>repl = [r]\<close>
  have cs: "no_run Q cs" using "2.prems"(2) by (simp add: no_run_Cons)
  show ?case
  proof (cases "P c")
    case True
    have "no_run Q (dropWhile P cs)"
      using cs by (rule no_run_dropWhile)
    then have "no_run Q (re_sub_plus P repl (dropWhile P cs))"
      using True "2.IH"(1) "2.prems"(1,3,4) by blast
    with True "2.prems"(3) r show ?thesis by (simp add: no_run_Cons)
  next
    case False
    have ih: "no_run Q (re_sub_plus P repl cs)"
      using False cs "2.IH"(2) "2.prems"(1,3,4) by blast
    have "cs \<noteq> [] \<Longrightarrow> \<not> (Q c \<and> Q (hd (re_sub_plus P [r] cs)))"
      using "2.prems"(2,3) by (auto simp: re_sub_plus_hd no_run_Cons)
    with False ih r show ?thesis by (simp add: no_run_Cons re_sub_plus_Nil_iff)
  qed
qed

lemma no_run_re_sub_plus_other:
  "no_run Q s \<Longrightarrow> \<not> Q r \<Longrightarrow> (\<And>c. P c \<Longrightarrow> \<not> Q c) \<Longrightarrow> no_run Q (re_sub_plus P [r] s)"
  by (rule no_run_re_sub_plus_other_aux) simp_all

lemma re_sub_plus_fixed_aux:
  "repl = [r] \<Longrightarrow> no_run P s \<Longrightarrow> (\<And>c. c \<in> set s \<Longrightarrow> P c \<Longrightarrow> c = r) \<Longrightarrow>
     re_sub_plus P repl s = s"
proof (induction P repl s rule: re_sub_plus.induct)
  case (1 P repl)
  show ?case by simp
next
  case (2 P repl c cs)
  note r = \<open>repl = [r]\<close>
  have cs: "no_run P cs" using "2.prems"(2) by (simp add: no_run_Cons)
  have rest: "\<And>x. x \<in> set cs \<Longrightarrow> P x \<Longrightarrow> x = r" using "2.prems"(3) by simp
  show ?case
  proof (cases "P c")
    case True
    then have "cs = [] \<or> \<not> P (hd cs)" using "2.prems"(2) by (auto simp: no_run_Cons)
    then have d: "dropWhile P cs = cs" by (simp add: dropWhile_eq_self_iff)
    have cr: "c = r" using True "2.prems"(3) by simp
    have "re_sub_plus P repl cs = cs"
      using "2.IH"(1) [OF True] r cs rest unfolding d by blast
    with True d cr r show ?thesis by simp
  next
    case False
    have "re_sub_plus P repl cs = cs"
      using "2.IH"(2) [OF False] r cs rest by blast
    with False show ?thesis by simp
  qed
qed

lemma re_sub_plus_fixed:
  "no_run P s \<Longrightarrow> (\<And>c. c \<in> set s \<Longrightarrow> P c \<Longrightarrow> c = r) \<Longrightarrow> re_sub_plus P [r] s = s"
  by (rule re_sub_plus_fixed_aux) simp_all

lemma re_sub_plus_run_start:
  "r \<noteq> [] \<Longrightarrow> \<forall>c\<in>set r. P c \<Longrightarrow>
     re_sub_plus P repl (r @ b) = repl @ re_sub_plus P repl (dropWhile P b)"
  by (cases r) simp_all

lemma re_sub_plus_run:
  "r1 \<noteq> [] \<Longrightarrow> r2 \<noteq> [] \<Longrightarrow> \<forall>c\<in>set r1. P c \<Longrightarrow> \<forall>c\<in>set r2. P c \<Longrightarrow>
     re_sub_plus P repl (a @ r1 @ b) = re_sub_plus P repl (a @ r2 @ b)"
proof (induction P repl a rule: re_sub_plus.induct)
  case (1 P repl)
  then show ?case by (simp add: re_sub_plus_run_start)
next
  case (2 P repl c cs)
  show ?case
  proof (cases "P c")
    case True
    show ?thesis
    proof (cases "\<forall>x\<in>set cs. P x")
      case all: True
      then have "dropWhile P (cs @ r1 @ b) = dropWhile P b"
        and "dropWhile P (cs @ r2 @ b) = dropWhile P b"
        using "2.prems" by (simp_all add: dropWhile_append)
      with True show ?thesis by simp
    next
      case False
      then obtain x where "x \<in> set cs" "\<not> P x" by blast
      then have d: "dropWhile P (cs @ r1 @ b) = dropWhile P cs @ r1 @ b"
        "dropWhile P (cs @ r2 @ b) = dropWhile P cs @ r2 @ b"
        by (rule dropWhile_append1)+
      have "re_sub_plus P repl (dropWhile P cs @ r1 @ b) =
            re_sub_plus P repl (dropWhile P cs @ r2 @ b)"
        using "2.IH"(1) [OF True] "2.prems" by blast
      with True d show ?thesis by simp
    qed
  next
    case False
    have "re_sub_plus P repl (cs @ r1 @ b) = re_sub_plus P repl (cs @ r2 @ b)"
      using "2.IH"(2) [OF False] "2.prems" by blast
    with False show ?thesis by simp
  qed
qed

lemma str_strip_fixed:
  "s = [] \<or> (\<not> P (hd s) \<and> \<not> P (last s)) \<Longrightarrow> str_strip P s = s"
proof (cases "s = []")
  case True
  then show ?thesis by (simp add: str_strip_def)
next
  case False
  assume "s = [] \<or> (\<not> P (hd s) \<and> \<not> P (last s))"
  with False have h: "\<not> P (hd s)" and l: "\<not> P (last s)" by simp_all
  from h False have "dropWhile P s = s" by (simp add: dropWhile_eq_self_iff)
  moreover from l False have "dropWhile P (rev s) = rev s"
    by (simp add: dropWhile_eq_self_iff hd_rev)
  ultimately show ?thesis by (simp add: str_strip_def)
qed

lemma str_strip_edges:
  "str_strip P s = [] \<or> (\<not> P (hd (str_strip P s)) \<and> \<not> P (last (str_strip P s)))"
proof (cases "str_strip P s = []")
  case True
  then show ?thesis by simp
next
  case False
  let ?v = "dropWhile P s"
  let ?w = "dropWhile P (rev ?v)"
  from False have w: "?w \<noteq> []" by (simp add: str_strip_def)
  then have v: "?v \<noteq> []" by (cases "?v = []") simp_all
  have "\<not> P (hd ?w)" using w by (rule hd_dropWhile)
  then have l: "\<not> P (last (str_strip P s))" using w by (simp add: str_strip_def last_rev)
  have nv: "\<not> P (hd ?v)" using v by (rule hd_dropWhile)
  from w obtain x where "x \<in> set (rev ?v)" "\<not> P x" by auto
  then have "last ?w = last (rev ?v)" by (rule dropWhile_last)
  also have "\<dots> = hd ?v" using v by (simp add: last_rev)
  finally have "hd (str_strip P s) = hd ?v" using w by (simp add: str_strip_def hd_rev)
  with nv l show ?thesis by simp
qed

lemma set_str_strip: "set (str_strip P s) \<subseteq> set s"
  by (auto simp: str_strip_def dest!: set_dropWhileD)

lemma kept_not_sep: "is_kept c \<Longrightarrow> \<not> is_sep c \<Longrightarrow> is_alnum c \<or> c = 46"
  unfolding is_kept_def is_sep_def re_w_def by blast

lemma sanitize_filename_chars:
  assumes "c \<in> set (sanitize_filename nfkd s)"
  shows "is_alnum c \<or> c = 45 \<or> c = 46"
proof -
  let ?t2 = "filter is_kept (ascii_fold nfkd s)"
  let ?t3 = "re_sub_plus is_sep (py ''-'') ?t2"
  let ?t4 = "re_sub_plus is_dot (py ''.'') ?t3"
  have "c \<in> set ?t4"
    using assms set_str_strip [of is_edge ?t4] by (auto simp: sanitize_filename_def)
  then have "c = 46 \<or> c \<in> set ?t3"
    using set_re_sub_plus [of is_dot "py ''.''" ?t3] by (auto simp: py_def)
  moreover have "c \<in> set ?t3 \<Longrightarrow> c = 45 \<or> (c \<in> set ?t2 \<and> \<not> is_sep c)"
    using set_re_sub_plus [of is_sep "py ''-''" ?t2] by (auto simp: py_def)
  moreover have "c \<in> set ?t2 \<Longrightarrow> is_kept c" by simp
  ultimately show ?thesis using kept_not_sep by blast
qed

lemma sanitize_filename_no_run:
  "no_run is_sep (sanitize_filename nfkd s) \<and> no_run is_dot (sanitize_filename nfkd s)"
proof -
  let ?t2 = "filter is_kept (ascii_fold nfkd s)"
  let ?t3 = "re_sub_plus is_sep [45] ?t2"
  let ?t4 = "re_sub_plus is_dot [46] ?t3"
  have out: "sanitize_filename nfkd s = str_strip is_edge ?t4"
    by (simp add: sanitize_filename_def py_def)
  have "no_run is_sep ?t3" by (rule no_run_re_sub_plus) (simp add: is_sep_def)
  then have "no_run is_sep ?t4"
    by (rule no_run_re_sub_plus_other) (simp_all add: is_sep_def is_dot_def re_s_def)
  moreover have "no_run is_dot ?t4" by (rule no_run_re_sub_plus) (simp add: is_dot_def)
  ultimately show ?thesis unfolding out by (simp add: no_run_str_strip)
qed

lemma sanitize_filename_edges:
  "sanitize_filename nfkd s = [] \<or>
     (\<not> is_edge (hd (sanitize_filename nfkd s)) \<and> \<not> is_edge (last (sanitize_filename nfkd s)))"
  unfolding sanitize_filename_def Let_def by (rule str_strip_edges)

lemma ascii_fold_fixed:
  "\<forall>c<128. nfkd c = [c] \<Longrightarrow> \<forall>c\<in>set t. c < 128 \<Longrightarrow> ascii_fold nfkd t = t"
  by (induction t) (simp_all add: ascii_fold_def)

lemma ascii_fold_append: "ascii_fold nfkd (a @ b) = ascii_fold nfkd a @ ascii_fold nfkd b"
  by (simp add: ascii_fold_def)

lemma out_char_ascii: "is_alnum c \<or> c = 45 \<or> c = 46 \<Longrightarrow> c < 128"
  unfolding is_alnum_def by arith

lemma out_char_kept: "is_alnum c \<or> c = 45 \<or> c = 46 \<Longrightarrow> is_kept c"
  unfolding is_kept_def re_w_def by blast

lemma out_char_sep: "is_alnum c \<or> c = 45 \<or> c = 46 \<Longrightarrow> is_sep c \<Longrightarrow> c = 45"
  unfolding is_alnum_def is_sep_def re_s_def by arith

lemma out_char_dot: "is_dot c \<Longrightarrow> c = 46"
  by (simp add: is_dot_def)

lemma sanitize_filename_fixed:
  assumes nfkd: "\<forall>c<128. nfkd c = [c]"
    and chars: "\<And>c. c \<in> set t \<Longrightarrow> is_alnum c \<or> c = 45 \<or> c = 46"
    and runs: "no_run is_sep t" "no_run is_dot t"
    and edges: "t = [] \<or> (\<not> is_edge (hd t) \<and> \<not> is_edge (last t))"
  shows "sanitize_filename nfkd t = t"
proof -
  have "\<forall>c\<in>set t. c < 128" using chars out_char_ascii by blast
  with nfkd have 1: "ascii_fold nfkd t = t" by (rule ascii_fold_fixed)
  have "\<forall>c\<in>set t. is_kept c" using chars out_char_kept by blast
  then have 2: "filter is_kept t = t" by simp
  have 3: "re_sub_plus is_sep [45] t = t"
    using runs(1) by (rule re_sub_plus_fixed) (use chars out_char_sep in blast)
  have 4: "re_sub_plus is_dot [46] t = t"
    using runs(2) by (rule re_sub_plus_fixed) (rule out_char_dot)
  have 5: "str_strip is_edge t = t"
    using edges by (rule str_strip_fixed)
  show ?thesis by (simp add: sanitize_filename_def py_def 1 2 3 4 5)
qed

lemma sanitize_filename_idem:
  assumes "\<forall>c<128. nfkd c = [c]"
  shows "sanitize_filename nfkd (sanitize_filename nfkd s) = sanitize_filename nfkd s"
proof (rule sanitize_filename_fixed [OF assms])
  fix c assume "c \<in> set (sanitize_filename nfkd s)"
  then show "is_alnum c \<or> c = 45 \<or> c = 46" by (rule sanitize_filename_chars)
next
  show "no_run is_sep (sanitize_filename nfkd s)" "no_run is_dot (sanitize_filename nfkd s)"
    using sanitize_filename_no_run [of nfkd s] by simp_all
next
  show "sanitize_filename nfkd s = [] \<or>
     (\<not> is_edge (hd (sanitize_filename nfkd s)) \<and> \<not> is_edge (last (sanitize_filename nfkd s)))"
    by (rule sanitize_filename_edges)
qed

lemma sep_kept: "is_sep c \<Longrightarrow> is_kept c"
  unfolding is_sep_def is_kept_def re_w_def by blast

text \<open>
  A run is a piece of the input of which the encoding leaves a non-empty string of
  hyphens, underscores and whitespace.
\<close>

lemma sanitize_filename_run:
  assumes nfkd: "\<forall>c<128. nfkd c = [c]"
    and r: "ascii_fold nfkd r \<noteq> []" "\<forall>c\<in>set (ascii_fold nfkd r). is_sep c"
  shows "sanitize_filename nfkd (a @ r @ b) = sanitize_filename nfkd (a @ py ''-'' @ b)"
proof -
  let ?r = "ascii_fold nfkd r"
  have "\<forall>c\<in>set ?r. is_kept c" using r(2) sep_kept by blast
  then have kr: "filter is_kept ?r = ?r" by simp
  have fh: "ascii_fold nfkd (45 # b) = 45 # ascii_fold nfkd b"
    using nfkd by (simp add: ascii_fold_def)
  have kh: "is_kept 45" by (simp add: is_kept_def)
  let ?A = "filter is_kept (ascii_fold nfkd a)"
  let ?B = "filter is_kept (ascii_fold nfkd b)"
  have "re_sub_plus is_sep (py ''-'') (?A @ ?r @ ?B) = re_sub_plus is_sep (py ''-'') (?A @ [45] @ ?B)"
    using r by (intro re_sub_plus_run) (simp_all add: is_sep_def)
  then show ?thesis
    by (simp add: sanitize_filename_def ascii_fold_append kr fh kh py_def)
qed

lemma ascii_run:
  assumes "\<forall>c<128. nfkd c = [c]" "r \<noteq> []" "\<forall>c\<in>set r. c < 128 \<and> is_sep c"
  shows "ascii_fold nfkd r \<noteq> [] \<and> (\<forall>c\<in>set (ascii_fold nfkd r). is_sep c)"
proof -
  have "ascii_fold nfkd r = r" using assms(1,3) by (intro ascii_fold_fixed) auto
  with assms(2,3) show ?thesis by simp
qed

lemma re_sub_plus_prefix:
  "no_run P x \<Longrightarrow> (\<And>c. c \<in> set x \<Longrightarrow> P c \<Longrightarrow> c = p) \<Longrightarrow> (x \<noteq> [] \<Longrightarrow> \<not> P (last x)) \<Longrightarrow>
     re_sub_plus P [p] (x @ s) = x @ re_sub_plus P [p] s"
proof (induction x)
  case Nil
  show ?case by simp
next
  case (Cons c cs)
  have nr: "no_run P cs" using Cons.prems(1) by (simp add: no_run_Cons)
  have rest: "\<And>d. d \<in> set cs \<Longrightarrow> P d \<Longrightarrow> d = p" using Cons.prems(2) by simp
  have lst: "cs \<noteq> [] \<Longrightarrow> \<not> P (last cs)" using Cons.prems(3) by simp
  have ih: "re_sub_plus P [p] (cs @ s) = cs @ re_sub_plus P [p] s"
    using Cons.IH nr rest lst by blast
  show ?case
  proof (cases "P c")
    case True
    have cp: "c = p" using True Cons.prems(2) by simp
    have ne: "cs \<noteq> []" using True Cons.prems(3) by auto
    then have "\<not> P (hd cs)" using True Cons.prems(1) by (simp add: no_run_Cons)
    then have "dropWhile P (cs @ s) = cs @ s" using ne by (cases cs) simp_all
    with True cp ih show ?thesis by simp
  next
    case False
    with ih show ?thesis by simp
  qed
qed

lemma clean_nameD:
  assumes "clean_name x"
  shows "x \<noteq> []" "\<And>c. c \<in> set x \<Longrightarrow> is_alnum c \<or> c = 45 \<or> c = 46"
    "no_run is_sep x" "no_run is_dot x" "\<not> is_edge (hd x)" "\<not> is_edge (last x)"
  using assms by (simp_all add: clean_name_def list_all_iff)

lemma not_edge_not_sep: "is_alnum c \<or> c = 45 \<or> c = 46 \<Longrightarrow> \<not> is_edge c \<Longrightarrow> \<not> is_sep c \<and> \<not> is_dot c"
  using out_char_sep [of c] by (auto simp: is_edge_def is_dot_def)

lemma clean_name_ends:
  assumes "clean_name x"
  shows "\<not> is_sep (hd x)" "\<not> is_sep (last x)" "\<not> is_dot (hd x)" "\<not> is_dot (last x)"
proof -
  note c = clean_nameD [OF assms]
  have "hd x \<in> set x" "last x \<in> set x" using c(1) by simp_all
  then have "is_alnum (hd x) \<or> hd x = 45 \<or> hd x = 46" "is_alnum (last x) \<or> last x = 45 \<or> last x = 46"
    using c(2) by blast+
  then show "\<not> is_sep (hd x)" "\<not> is_sep (last x)" "\<not> is_dot (hd x)" "\<not> is_dot (last x)"
    using c(5,6) not_edge_not_sep by blast+
qed

lemma clean_name_stages:
  assumes nfkd: "\<forall>c<128. nfkd c = [c]" and x: "clean_name x"
  shows "ascii_fold nfkd x = x" "filter is_kept x = x"
    "re_sub_plus is_sep [45] (x @ s) = x @ re_sub_plus is_sep [45] s"
    "re_sub_plus is_sep [45] x = x"
proof -
  note c = clean_nameD [OF x]
  have "\<forall>c\<in>set x. c < 128" using c(2) out_char_ascii by blast
  with nfkd show "ascii_fold nfkd x = x" by (rule ascii_fold_fixed)
  have "\<forall>c\<in>set x. is_kept c" using c(2) out_char_kept by blast
  then show "filter is_kept x = x" by simp
  show "re_sub_plus is_sep [45] (x @ s) = x @ re_sub_plus is_sep [45] s"
    using c(3)
  proof (rule re_sub_plus_prefix)
    show "\<And>d. d \<in> set x \<Longrightarrow> is_sep d \<Longrightarrow> d = 45" using c(2) out_char_sep by blast
    show "\<not> is_sep (last x)" by (rule clean_name_ends [OF x])
  qed
  show "re_sub_plus is_sep [45] x = x"
    using c(3) by (rule re_sub_plus_fixed) (use c(2) out_char_sep in blast)
qed

lemma no_dots_fixed:
  assumes "no_run is_dot t"
  shows "re_sub_plus is_dot [46] t = t"
  using assms by (rule re_sub_plus_fixed) (rule out_char_dot)

lemma sanitize_filename_between:
  assumes nfkd: "\<forall>c<128. nfkd c = [c]"
    and x: "clean_name x" and y: "clean_name y"
    and r: "ascii_fold nfkd r \<noteq> []" "\<forall>c\<in>set (ascii_fold nfkd r). is_sep c"
  shows "sanitize_filename nfkd (x @ r @ y) = x @ py ''-'' @ y"
proof -
  let ?r = "ascii_fold nfkd r"
  note cx = clean_nameD [OF x] and cy = clean_nameD [OF y]
  note ex = clean_name_ends [OF x] and ey = clean_name_ends [OF y]
  note sx = clean_name_stages [OF nfkd x] and sy = clean_name_stages [OF nfkd y]
  have 1: "ascii_fold nfkd (x @ r @ y) = x @ ?r @ y"
    by (simp add: ascii_fold_append sx(1) sy(1))
  have "\<forall>c\<in>set ?r. is_kept c" using r(2) sep_kept by blast
  then have 2: "filter is_kept (x @ ?r @ y) = x @ ?r @ y" by (simp add: sx(2) sy(2))
  have dy: "dropWhile is_sep y = y" using cy(1) ey(1) by (cases y) simp_all
  have "re_sub_plus is_sep [45] (?r @ y) = [45] @ re_sub_plus is_sep [45] (dropWhile is_sep y)"
    using r by (rule re_sub_plus_run_start)
  then have 3: "re_sub_plus is_sep [45] (x @ ?r @ y) = x @ [45] @ y"
    by (simp add: sx(3) dy sy(4))
  have "no_run is_dot (x @ [45] @ y)"
    using cx(4) cy(4) by (simp add: no_run_append no_run_Cons is_dot_def)
  then have 4: "re_sub_plus is_dot [46] (x @ [45] @ y) = x @ [45] @ y" by (rule no_dots_fixed)
  have 5: "str_strip is_edge (x @ [45] @ y) = x @ [45] @ y"
    using cx(1,5) cy(1,6) by (intro str_strip_fixed) simp
  have "sanitize_filename nfkd (x @ r @ y) =
      str_strip is_edge (re_sub_plus is_dot [46] (re_sub_plus is_sep [45]
        (filter is_kept (ascii_fold nfkd (x @ r @ y)))))"
    by (simp add: sanitize_filename_def py_def)
  also have "\<dots> = x @ [45] @ y" by (simp only: 1 2 3 4 5)
  finally show ?thesis by (simp add: py_def)
qed

lemma sanitize_filename_at_edge:
  assumes nfkd: "\<forall>c<128. nfkd c = [c]"
    and y: "clean_name y"
    and r: "ascii_fold nfkd r \<noteq> []" "\<forall>c\<in>set (ascii_fold nfkd r). is_sep c"
  shows "sanitize_filename nfkd (r @ y) = y" and "sanitize_filename nfkd (y @ r) = y"
proof -
  let ?r = "ascii_fold nfkd r"
  note cy = clean_nameD [OF y] and ey = clean_name_ends [OF y]
  note sy = clean_name_stages [OF nfkd y]
  have k: "filter is_kept ?r = ?r" using r(2) sep_kept by simp
  have f1: "filter is_kept (ascii_fold nfkd (r @ y)) = ?r @ y"
    by (simp add: ascii_fold_append sy(1,2) k)
  have f2: "filter is_kept (ascii_fold nfkd (y @ r)) = y @ ?r"
    by (simp add: ascii_fold_append sy(1,2) k)
  have unf: "\<And>t. sanitize_filename nfkd t =
      str_strip is_edge (re_sub_plus is_dot [46] (re_sub_plus is_sep [45]
        (filter is_kept (ascii_fold nfkd t))))"
    by (simp add: sanitize_filename_def py_def)
  have dy: "dropWhile is_sep y = y" using cy(1) ey(1) by (cases y) simp_all
  have de: "dropWhile is_edge y = y" using cy(1,5) by (cases y) simp_all
  have dr: "dropWhile is_edge (rev y) = rev y"
    using cy(1,6) by (cases "rev y") (simp_all add: hd_rev)
  have e45: "is_edge 45" by (simp add: is_edge_def)
  have "re_sub_plus is_sep [45] (?r @ y) = [45] @ re_sub_plus is_sep [45] (dropWhile is_sep y)"
    using r by (rule re_sub_plus_run_start)
  then have a3: "re_sub_plus is_sep [45] (?r @ y) = 45 # y" by (simp add: dy sy(4))
  have "no_run is_dot (45 # y)" using cy(4) by (simp add: no_run_Cons is_dot_def)
  then have a4: "re_sub_plus is_dot [46] (45 # y) = 45 # y" by (rule no_dots_fixed)
  have a5: "str_strip is_edge (45 # y) = y" by (simp add: str_strip_def e45 de dr)
  show "sanitize_filename nfkd (r @ y) = y"
    by (simp only: unf f1 a3 a4 a5)
  have "re_sub_plus is_sep [45] (?r @ []) = [45] @ re_sub_plus is_sep [45] (dropWhile is_sep [])"
    using r by (rule re_sub_plus_run_start)
  then have b3: "re_sub_plus is_sep [45] (y @ ?r) = y @ [45]" by (simp add: sy(3))
  have "no_run is_dot (y @ [45])" using cy(4) by (simp add: no_run_append is_dot_def)
  then have b4: "re_sub_plus is_dot [46] (y @ [45]) = y @ [45]" by (rule no_dots_fixed)
  have "dropWhile is_edge (y @ [45]) = y @ [45]" using cy(1,5) by (cases y) simp_all
  then have b5: "str_strip is_edge (y @ [45]) = y" by (simp add: str_strip_def e45 dr)
  show "sanitize_filename nfkd (y @ r) = y"
    by (simp only: unf f2 b3 b4 b5)
qed

lemma no_run_none: "\<forall>c\<in>set x. \<not> P c \<Longrightarrow> no_run P x"
  by (induction x) (simp_all add: no_run_Cons)

lemma alnum_clean_name: "x \<noteq> [] \<Longrightarrow> \<forall>c\<in>set x. is_alnum c \<Longrightarrow> clean_name x"
proof -
  assume ne: "x \<noteq> []" and al: "\<forall>c\<in>set x. is_alnum c"
  have ns: "\<And>c. is_alnum c \<Longrightarrow> \<not> is_sep c \<and> \<not> is_dot c \<and> \<not> is_edge c"
    unfolding is_alnum_def is_sep_def is_dot_def is_edge_def re_s_def by arith
  have nr: "no_run is_sep x" "no_run is_dot x" using al ns by (simp_all add: no_run_none)
  have "hd x \<in> set x" "last x \<in> set x" using ne by simp_all
  with al ns ne nr show ?thesis by (simp add: clean_name_def list_all_iff)
qed

text \<open>
  C3 (as amended): when the decomposition table leaves ASCII alone, the sanitizer is
  idempotent; its output has only word characters, hyphens, underscores and dots; a run
  of hyphens, underscores and whitespace that the encoding keeps (every ASCII one is
  kept) has the effect of one hyphen, so that between two sanitized names it leaves
  exactly one hyphen in the output, while at the start or at the end of the input it
  leaves nothing; the output never has two neighbouring characters of that class; and
  the output, unless empty, is a sanitized name, which neither starts nor ends with a
  hyphen, an underscore or a dot.
\<close>

theorem sanitize_filename_amended:
  assumes "\<forall>c<128. nfkd c = [c]"
  shows "sanitize_filename nfkd (sanitize_filename nfkd s) = sanitize_filename nfkd s
    \<and> (\<forall>c\<in>set (sanitize_filename nfkd s). re_w c \<or> c = 45 \<or> c = 95 \<or> c = 46)
    \<and> (ascii_fold nfkd r \<noteq> [] \<and> (\<forall>c\<in>set (ascii_fold nfkd r). is_sep c) \<longrightarrow>
         sanitize_filename nfkd (a @ r @ b) = sanitize_filename nfkd (a @ py ''-'' @ b)
         \<and> (clean_name x \<and> clean_name y \<longrightarrow>
              sanitize_filename nfkd (x @ r @ y) = x @ py ''-'' @ y)
         \<and> (clean_name y \<longrightarrow>
              sanitize_filename nfkd (r @ y) = y \<and> sanitize_filename nfkd (y @ r) = y))
    \<and> (r \<noteq> [] \<and> (\<forall>c\<in>set r. c < 128 \<and> is_sep c) \<longrightarrow>
         ascii_fold nfkd r \<noteq> [] \<and> (\<forall>c\<in>set (ascii_fold nfkd r). is_sep c))
    \<and> no_run is_sep (sanitize_filename nfkd s)
    \<and> (sanitize_filename nfkd s = [] \<or> clean_name (sanitize_filename nfkd s))
    \<and> (sanitize_filename nfkd s = [] \<or>
         (\<not> is_edge (hd (sanitize_filename nfkd s)) \<and>
          \<not> is_edge (last (sanitize_filename nfkd s))))"
proof -
  let ?out = "sanitize_filename nfkd s"
  have 1: "\<forall>c\<in>set ?out. re_w c \<or> c = 45 \<or> c = 95 \<or> c = 46"
    using sanitize_filename_chars [of _ nfkd s] by (auto simp: re_w_def)
  have 2: "ascii_fold nfkd r \<noteq> [] \<and> (\<forall>c\<in>set (ascii_fold nfkd r). is_sep c) \<longrightarrow>
         sanitize_filename nfkd (a @ r @ b) = sanitize_filename nfkd (a @ py ''-'' @ b)
         \<and> (clean_name x \<and> clean_name y \<longrightarrow>
              sanitize_filename nfkd (x @ r @ y) = x @ py ''-'' @ y)
         \<and> (clean_name y \<longrightarrow>
              sanitize_filename nfkd (r @ y) = y \<and> sanitize_filename nfkd (y @ r) = y)"
    using sanitize_filename_run [OF assms, of r a b]
      sanitize_filename_between [OF assms, of x y r]
      sanitize_filename_at_edge [OF assms, of y r]
    by blast
  have 3: "r \<noteq> [] \<and> (\<forall>c\<in>set r. c < 128 \<and> is_sep c) \<longrightarrow>
         ascii_fold nfkd r \<noteq> [] \<and> (\<forall>c\<in>set (ascii_fold nfkd r). is_sep c)"
    using ascii_run [OF assms, of r] by blast
  have 4: "?out = [] \<or> clean_name ?out"
    using sanitize_filename_chars [of _ nfkd s] sanitize_filename_no_run [of nfkd s]
      sanitize_filename_edges [of nfkd s]
    by (auto simp: clean_name_def list_all_iff)
  from 1 2 3 4 show ?thesis
    using sanitize_filename_idem [OF assms] sanitize_filename_no_run [of nfkd s]
      sanitize_filename_edges [of nfkd s]
    by blast
qed

theorem sanitize_filename_amended_witness:
  "sanitize_filename nfkd_plain (py ''My  file__name..txt'') = py ''My-file-name.txt''
   \<and> sanitize_filename nfkd_plain (py ''My-file-name.txt'') = py ''My-file-name.txt''
   \<and> clean_name (py ''to'') \<and> clean_name (py ''do.txt'')
   \<and> sanitize_filename nfkd_plain (py ''to'' @ py ''_ -'' @ py ''do.txt'') = py ''to-do.txt''
   \<and> sanitize_filename nfkd_plain (py ''_ -'' @ py ''do.txt'') = py ''do.txt''
   \<and> sanitize_filename nfkd_plain (py ''do.txt'' @ py ''_ -'') = py ''do.txt''"
proof -
  have h: "\<forall>c<128. nfkd_plain c = [c]" by (simp add: nfkd_plain_def)
  have e: "sanitize_filename nfkd_plain (py ''My  file__name..txt'') = py ''My-file-name.txt''"
    by code_simp
  have c: "clean_name (py ''to'')" "clean_name (py ''do.txt'')"
    by code_simp+
  have s: "py ''_ -'' \<noteq> [] \<and> (\<forall>c\<in>set (py ''_ -''). c < 128 \<and> is_sep c)"
    by (simp add: py_def is_sep_def re_s_def)
  have p: "py ''to'' @ py ''-'' @ py ''do.txt'' = py ''to-do.txt''" by (simp add: py_def)
  from sanitize_filename_amended
    [OF h, of "py ''My  file__name..txt''" "py ''_ -''" "[]" "[]" "py ''to''" "py ''do.txt''"]
    e c s p
  show ?thesis by simp
qed

text \<open>
  C3 as first stated, with every run of two or more such characters leaving a single
  hyphen in the output, fails for a run at the start of the input: the two hyphens of
  \<^verbatim>\<open>--a\<close> become one, which \<^verbatim>\<open>strip\<close> then removes. It fails as well for whitespace
  that has no decomposition into ASCII: two line separators U+2028 between \<^verbatim>\<open>a\<close> and
  \<^verbatim>\<open>b\<close> are dropped by the encoding and leave no hyphen.
\<close>

theorem sanitize_filename_run_counterexample:
  "sanitize_filename nfkd_plain (py ''--a'') = py ''a''
   \<and> 45 \<notin> set (sanitize_filename nfkd_plain (py ''--a''))
   \<and> re_s 8232
   \<and> sanitize_filename nfkd_plain ([97, 8232, 8232, 98]) = py ''ab''"
  by (simp add: sanitize_filename_def nfkd_plain_def ascii_fold_def py_def is_kept_def is_sep_def
      is_dot_def is_edge_def re_w_def re_s_def is_alnum_def str_strip_def)

text \<open>
  C9 (as amended): no character of the sanitizer's output is an underscore or a
  whitespace character: every one is an ASCII letter, a digit, a hyphen or a dot,
  whatever the decomposition table. The underscore is a word character, so the set of
  word characters, hyphens, underscores and dots is strictly larger. A run of
  underscores and whitespace that the encoding keeps is replaced by exactly one hyphen
  between two sanitized names, and by nothing at the start or at the end of the input.
\<close>

theorem sanitize_filename_no_underscore:
  "(\<forall>c\<in>set (sanitize_filename nfkd s).
      (is_alnum c \<or> c = 45 \<or> c = 46) \<and> c \<noteq> 95 \<and> \<not> re_s c)
   \<and> re_w 95
   \<and> ((\<forall>c<128. nfkd c = [c]) \<and> ascii_fold nfkd r \<noteq> [] \<and>
       (\<forall>c\<in>set (ascii_fold nfkd r). c = 95 \<or> re_s c) \<longrightarrow>
        (clean_name x \<and> clean_name y \<longrightarrow>
           sanitize_filename nfkd (x @ r @ y) = x @ py ''-'' @ y)
        \<and> (clean_name y \<longrightarrow>
             sanitize_filename nfkd (r @ y) = y \<and> sanitize_filename nfkd (y @ r) = y))
   \<and> ((\<forall>c<128. nfkd c = [c]) \<and> r \<noteq> [] \<and> (\<forall>c\<in>set r. c < 128 \<and> (c = 95 \<or> re_s c)) \<longrightarrow>
        ascii_fold nfkd r \<noteq> [] \<and> (\<forall>c\<in>set (ascii_fold nfkd r). c = 95 \<or> re_s c))"
proof -
  have "\<And>c. is_alnum c \<or> c = 45 \<or> c = 46 \<Longrightarrow> c \<noteq> 95 \<and> \<not> re_s c"
    unfolding is_alnum_def re_s_def by arith
  then have 1: "\<forall>c\<in>set (sanitize_filename nfkd s).
      (is_alnum c \<or> c = 45 \<or> c = 46) \<and> c \<noteq> 95 \<and> \<not> re_s c"
    using sanitize_filename_chars [of _ nfkd s] by blast
  have 2: "re_w 95" by (simp add: re_w_def)
  have 3: "(\<forall>c<128. nfkd c = [c]) \<and> ascii_fold nfkd r \<noteq> [] \<and>
       (\<forall>c\<in>set (ascii_fold nfkd r). c = 95 \<or> re_s c) \<longrightarrow>
        (clean_name x \<and> clean_name y \<longrightarrow>
           sanitize_filename nfkd (x @ r @ y) = x @ py ''-'' @ y)
        \<and> (clean_name y \<longrightarrow>
             sanitize_filename nfkd (r @ y) = y \<and> sanitize_filename nfkd (y @ r) = y)"
  proof
    assume h: "(\<forall>c<128. nfkd c = [c]) \<and> ascii_fold nfkd r \<noteq> [] \<and>
       (\<forall>c\<in>set (ascii_fold nfkd r). c = 95 \<or> re_s c)"
    then have n: "\<forall>c<128. nfkd c = [c]" and ne: "ascii_fold nfkd r \<noteq> []"
      and sp: "\<forall>c\<in>set (ascii_fold nfkd r). is_sep c"
      by (simp_all add: is_sep_def)
    show "(clean_name x \<and> clean_name y \<longrightarrow>
           sanitize_filename nfkd (x @ r @ y) = x @ py ''-'' @ y)
        \<and> (clean_name y \<longrightarrow>
             sanitize_filename nfkd (r @ y) = y \<and> sanitize_filename nfkd (y @ r) = y)"
      using sanitize_filename_between [OF n _ _ ne sp, of x y]
        sanitize_filename_at_edge [OF n _ ne sp, of y]
      by blast
  qed
  have 4: "(\<forall>c<128. nfkd c = [c]) \<and> r \<noteq> [] \<and> (\<forall>c\<in>set r. c < 128 \<and> (c = 95 \<or> re_s c)) \<longrightarrow>
        ascii_fold nfkd r \<noteq> [] \<and> (\<forall>c\<in>set (ascii_fold nfkd r). c = 95 \<or> re_s c)"
  proof
    assume h: "(\<forall>c<128. nfkd c = [c]) \<and> r \<noteq> [] \<and> (\<forall>c\<in>set r. c < 128 \<and> (c = 95 \<or> re_s c))"
    then have "ascii_fold nfkd r = r" by (intro ascii_fold_fixed) auto
    with h show "ascii_fold nfkd r \<noteq> [] \<and> (\<forall>c\<in>set (ascii_fold nfkd r). c = 95 \<or> re_s c)"
      by simp
  qed
  from 1 2 3 4 show ?thesis by blast
qed

theorem sanitize_filename_no_underscore_witness:
  "sanitize_filename nfkd_plain (py ''to_do list'') = py ''to-do-list''
   \<and> 95 \<notin> set (sanitize_filename nfkd_plain (py ''to_do list''))
   \<and> 32 \<notin> set (sanitize_filename nfkd_plain (py ''to_do list''))
   \<and> clean_name (py ''to'') \<and> clean_name (py ''do'')
   \<and> sanitize_filename nfkd_plain (py ''to'' @ py ''_ _'' @ py ''do'') = py ''to-do''
   \<and> sanitize_filename nfkd_plain (py ''_ _'' @ py ''do'') = py ''do''
   \<and> sanitize_filename nfkd_plain (py ''do'' @ py ''_ _'') = py ''do''"
proof -
  have e: "sanitize_filename nfkd_plain (py ''to_do list'') = py ''to-do-list''"
    by code_simp
  have h: "\<forall>c<128. nfkd_plain c = [c]" by (simp add: nfkd_plain_def)
  have c: "clean_name (py ''to'')" "clean_name (py ''do'')"
    by code_simp+
  have s: "py ''_ _'' \<noteq> [] \<and> (\<forall>c\<in>set (py ''_ _''). c < 128 \<and> (c = 95 \<or> re_s c))"
    by (simp add: py_def re_s_def)
  have p: "py ''to'' @ py ''-'' @ py ''do'' = py ''to-do''" by (simp add: py_def)
  have w: "re_s 32" by (simp add: re_s_def)
  from sanitize_filename_no_underscore
    [of nfkd_plain "py ''to_do list''" "py ''_ _''" "py ''to''" "py ''do''"] e h c s p w
  show ?thesis by auto
qed

text \<open>
  C9 as first stated, with every underscore and every whitespace run replaced by a single
  hyphen, fails at the start of the input, where the underscores of \<^verbatim>\<open>__a\<close> leave
  nothing, and for whitespace without a decomposition into ASCII: the line separator
  U+2028 between \<^verbatim>\<open>a\<close> and \<^verbatim>\<open>b\<close> is dropped and leaves no hyphen.
\<close>

theorem sanitize_filename_underscore_counterexample:
  "sanitize_filename nfkd_plain (py ''__a'') = py ''a''
   \<and> 45 \<notin> set (sanitize_filename nfkd_plain (py ''__a''))
   \<and> re_s 8232
   \<and> sanitize_filename nfkd_plain ([97, 8232, 98]) = py ''ab''"
  by (simp add: sanitize_filename_def nfkd_plain_def ascii_fold_def py_def is_kept_def is_sep_def
      is_dot_def is_edge_def re_w_def re_s_def is_alnum_def str_strip_def)

section \<open>Board selection\<close>

text \<open>
  C8: with an empty list of boards the selection reads index 0 of an empty list, which
  raises \<^verbatim>\<open>IndexError\<close>: a board is selected only from a non-empty list, and a run
  whose boards request succeeds with no board ends with that error, not with an exit.
\<close>

theorem empty_board_list_IndexError:
  "sel_board (select_board [] stdin) = Inl IndexError
   \<and> (sel_board (select_board boards stdin) = Inr b \<longrightarrow> boards \<noteq> [])
   \<and> (w_boards w = Response 200 [] \<longrightarrow> run e w stdin st = Inl IndexError)"
proof -
  have 1: "sel_board (select_board [] stdin) = Inl IndexError"
    by (simp add: select_board_def)
  have 2: "sel_board (select_board boards stdin) = Inr b \<longrightarrow> boards \<noteq> []"
    using 1 by auto
  have 3: "w_boards w = Response 200 [] \<longrightarrow> run e w stdin st = Inl IndexError"
    by (simp add: run_def get_boards_def 1)
  from 1 2 3 show ?thesis by blast
qed

theorem empty_board_list_IndexError_witness:
  "sel_board (select_board [sample_board ''b''] []) = Inr (sample_board ''b'')
   \<and> [sample_board ''b''] \<noteq> []
   \<and> w_boards (no_service\<lparr>w_boards := Response 200 []\<rparr>) = Response 200 []
   \<and> run sample_env (no_service\<lparr>w_boards := Response 200 []\<rparr>) [] empty_state = Inl IndexError"
proof -
  have s: "sel_board (select_board [sample_board ''b''] []) = Inr (sample_board ''b'')"
    by (simp add: select_board_def)
  have w: "w_boards (no_service\<lparr>w_boards := Response 200 []\<rparr>) = Response 200 []"
    by simp
  show ?thesis
    using empty_board_list_IndexError
      [of "[]" "[sample_board ''b'']" "sample_board ''b''"
          "no_service\<lparr>w_boards := Response 200 []\<rparr>" sample_env empty_state] s w
    by simp
qed

text \<open>
  C7: when the boards were fetched, more than one board is displayed in the order of the
  sorted list, which is the lexicographic order of the names, whatever is typed at the
  prompt afterwards; with exactly one board nothing is displayed, nothing is read from
  the input and that board is selected.
\<close>

theorem board_display_sorted:
  assumes "get_boards w = Inr boards"
  shows "(length boards > 1 \<longrightarrow>
          sel_displayed (select_board boards stdin) =
            map (\<lambda>i. (i, bd_name (boards ! i))) [0 ..< length boards]
          \<and> map snd (sel_displayed (select_board boards stdin)) = map bd_name boards
          \<and> sorted (map snd (sel_displayed (select_board boards stdin))))
    \<and> (length boards = 1 \<longrightarrow>
          select_board boards stdin =
            \<lparr>sel_displayed = [], sel_stdin = stdin, sel_board = Inr (hd boards)\<rparr>)
    \<and> (\<exists>json_data. w_boards w = Response 200 json_data \<and> mset boards = mset json_data)"
proof -
  from assms obtain json_data where j: "w_boards w = Response 200 json_data"
    and b: "boards = sort_key bd_name json_data"
    by (auto simp: get_boards_def split: response.splits if_splits)
  have m: "mset boards = mset json_data" by (simp add: b)
  have nth: "map (\<lambda>i. bd_name (boards ! i)) [0 ..< length boards] = map bd_name boards"
    by (rule nth_equalityI) simp_all
  have many: "length boards > 1 \<longrightarrow>
          sel_displayed (select_board boards stdin) =
            map (\<lambda>i. (i, bd_name (boards ! i))) [0 ..< length boards]
          \<and> map snd (sel_displayed (select_board boards stdin)) = map bd_name boards
          \<and> sorted (map snd (sel_displayed (select_board boards stdin)))"
  proof
    assume l: "length boards > 1"
    then have d: "sel_displayed (select_board boards stdin) =
        map (\<lambda>i. (i, bd_name (boards ! i))) [0 ..< length boards]"
      by (simp add: select_board_def Let_def split: sum.splits prod.splits)
    have s: "map snd (sel_displayed (select_board boards stdin)) = map bd_name boards"
      unfolding d using nth by (simp add: comp_def)
    have "sorted (map bd_name boards)" unfolding b by (rule sorted_sort_key)
    with d s show "sel_displayed (select_board boards stdin) =
            map (\<lambda>i. (i, bd_name (boards ! i))) [0 ..< length boards]
          \<and> map snd (sel_displayed (select_board boards stdin)) = map bd_name boards
          \<and> sorted (map snd (sel_displayed (select_board boards stdin)))"
      by simp
  qed
  have one: "length boards = 1 \<longrightarrow>
          select_board boards stdin =
            \<lparr>sel_displayed = [], sel_stdin = stdin, sel_board = Inr (hd boards)\<rparr>"
  proof
    assume "length boards = 1"
    then obtain x where x: "boards = [x]" by (cases boards) auto
    show "select_board boards stdin =
            \<lparr>sel_displayed = [], sel_stdin = stdin, sel_board = Inr (hd boards)\<rparr>"
      unfolding x by (simp add: select_board_def)
  qed
  from j m many one show ?thesis by blast
qed

theorem board_display_sorted_witness:
  "get_boards (no_service\<lparr>w_boards := Response 200 [sample_board ''Zeta'', sample_board ''Alpha'']\<rparr>)
     = Inr [sample_board ''Alpha'', sample_board ''Zeta'']
   \<and> sel_displayed (select_board [sample_board ''Alpha'', sample_board ''Zeta''] [Some 1])
     = [(0, py ''Alpha''), (1, py ''Zeta'')]
   \<and> sel_board (select_board [sample_board ''Alpha'', sample_board ''Zeta''] [Some 1])
     = Inr (sample_board ''Zeta'')
   \<and> get_boards (no_service\<lparr>w_boards := Response 200 [sample_board ''Solo'']\<rparr>)
     = Inr [sample_board ''Solo'']
   \<and> select_board [sample_board ''Solo''] [Some 7]
     = \<lparr>sel_displayed = [], sel_stdin = [Some 7], sel_board = Inr (sample_board ''Solo'')\<rparr>"
proof -
  have lt: "py ''Alpha'' \<le> py ''Zeta''" "\<not> py ''Zeta'' \<le> py ''Alpha''"
    by (simp_all add: py_def)
  have g2: "get_boards (no_service\<lparr>w_boards := Response 200 [sample_board ''Zeta'', sample_board ''Alpha'']\<rparr>)
     = Inr [sample_board ''Alpha'', sample_board ''Zeta'']"
    using lt by (simp add: get_boards_def sample_board_def)
  have g1: "get_boards (no_service\<lparr>w_boards := Response 200 [sample_board ''Solo'']\<rparr>)
     = Inr [sample_board ''Solo'']"
    by (simp add: get_boards_def)
  have sel: "sel_board (select_board [sample_board ''Alpha'', sample_board ''Zeta''] [Some 1])
     = Inr (sample_board ''Zeta'')"
    by (simp add: select_board_def)
  show ?thesis
    using board_display_sorted [OF g2, of "[Some 1]"] board_display_sorted [OF g1, of "[Some 7]"]
      g1 g2 sel
    by (simp add: sample_board_def upt_rec)
qed

section \<open>The date of the last state change of a check-item\<close>

lemma scan_actions_find:
  "scan_actions e item_id actions =
     (case find (\<lambda>a. ac_type a = py ''updateCheckItemStateOnCard'' \<and> ac_checkItem_id a = item_id)
             actions of
        None \<Rightarrow> []
      | Some a \<Rightarrow> fmt_date e (ac_date a))"
  by (induction actions) simp_all

text \<open>
  C6: the date of a check-item in the context is found by going through the actions of
  the card in the order received: it is the formatted date of the first action of type
  \<^verbatim>\<open>updateCheckItemStateOnCard\<close> whose check-item id is the item's, whatever comes after
  it, and the empty string when there is no such action or the card has no actions.
\<close>

theorem lastStateChangeDate_first_match:
  "ie_date (checkItem_entry e c item) =
     (case cd_actions c of
        None \<Rightarrow> []
      | Some actions \<Rightarrow>
          (case find (\<lambda>a. ac_type a = py ''updateCheckItemStateOnCard'' \<and>
                          ac_checkItem_id a = ci_id item) actions of
             None \<Rightarrow> []
           | Some a \<Rightarrow> fmt_date e (ac_date a)))
   \<and> (\<forall>actions k. cd_actions c = Some actions \<and> k < length actions \<and>
         ac_type (actions ! k) = py ''updateCheckItemStateOnCard'' \<and>
         ac_checkItem_id (actions ! k) = ci_id item \<and>
         (\<forall>j<k. \<not> (ac_type (actions ! j) = py ''updateCheckItemStateOnCard'' \<and>
                    ac_checkItem_id (actions ! j) = ci_id item))
         \<longrightarrow> ie_date (checkItem_entry e c item) = fmt_date e (ac_date (actions ! k)))
   \<and> (\<forall>actions. cd_actions c = Some actions \<and>
         (\<forall>a\<in>set actions. \<not> (ac_type a = py ''updateCheckItemStateOnCard'' \<and>
                              ac_checkItem_id a = ci_id item))
         \<longrightarrow> ie_date (checkItem_entry e c item) = [])"
proof -
  let ?P = "\<lambda>a. ac_type a = py ''updateCheckItemStateOnCard'' \<and> ac_checkItem_id a = ci_id item"
  have eq: "ie_date (checkItem_entry e c item) =
     (case cd_actions c of
        None \<Rightarrow> []
      | Some actions \<Rightarrow>
          (case find ?P actions of None \<Rightarrow> [] | Some a \<Rightarrow> fmt_date e (ac_date a)))"
    by (cases "cd_actions c")
       (simp_all add: checkItem_entry_def updateCheckItemStateDate_def scan_actions_find)
  have first: "ie_date (checkItem_entry e c item) = fmt_date e (ac_date (actions ! k))"
    if "cd_actions c = Some actions" "k < length actions" "?P (actions ! k)"
      "\<forall>j<k. \<not> ?P (actions ! j)" for actions k
  proof -
    have "find ?P actions = Some (actions ! k)"
      unfolding find_Some_iff using that(2,3,4) by blast
    with that(1) show ?thesis unfolding eq by simp
  qed
  have none: "ie_date (checkItem_entry e c item) = []"
    if "cd_actions c = Some actions" "\<forall>a\<in>set actions. \<not> ?P a" for actions
  proof -
    have "find ?P actions = None" unfolding find_None_iff using that(2) by blast
    with that(1) show ?thesis unfolding eq by simp
  qed
  from eq first none show ?thesis by blast
qed

theorem lastStateChangeDate_first_match_witness:
  "ie_date (checkItem_entry sample_env
      (sample_card\<lparr>cd_actions := Some [state_update ''x'' ''d0'', state_update ''i'' ''d1'',
                                        state_update ''i'' ''d2'']\<rparr>)
      (sample_item ''i'' ''complete'')) = py ''d1''
   \<and> ie_date (checkItem_entry sample_env
      (sample_card\<lparr>cd_actions := Some [state_update ''x'' ''d0'']\<rparr>)
      (sample_item ''i'' ''complete'')) = []"
proof -
  let ?acts = "[state_update ''x'' ''d0'', state_update ''i'' ''d1'', state_update ''i'' ''d2'']"
  let ?c = "sample_card\<lparr>cd_actions := Some ?acts\<rparr>"
  let ?d = "sample_card\<lparr>cd_actions := Some [state_update ''x'' ''d0'']\<rparr>"
  let ?i = "sample_item ''i'' ''complete''"
  have ne: "py ''x'' \<noteq> py ''i''" by (simp add: py_def)
  have 1: "cd_actions ?c = Some ?acts \<and> Suc 0 < length ?acts \<and>
         ac_type (?acts ! Suc 0) = py ''updateCheckItemStateOnCard'' \<and>
         ac_checkItem_id (?acts ! Suc 0) = ci_id ?i \<and>
         (\<forall>j<Suc 0. \<not> (ac_type (?acts ! j) = py ''updateCheckItemStateOnCard'' \<and>
                    ac_checkItem_id (?acts ! j) = ci_id ?i))"
    using ne by (simp add: state_update_def sample_item_def)
  have 2: "cd_actions ?d = Some [state_update ''x'' ''d0''] \<and>
         (\<forall>a\<in>set [state_update ''x'' ''d0'']. \<not> (ac_type a = py ''updateCheckItemStateOnCard'' \<and>
                              ac_checkItem_id a = ci_id ?i))"
    using ne by (simp add: state_update_def sample_item_def)
  have a: "ie_date (checkItem_entry sample_env ?c ?i) = fmt_date sample_env (ac_date (?acts ! Suc 0))"
    using lastStateChangeDate_first_match [of sample_env ?c ?i] 1 by blast
  have b: "ie_date (checkItem_entry sample_env ?d ?i) = []"
    using lastStateChangeDate_first_match [of sample_env ?d ?i] 2 by blast
  from a b show ?thesis by (simp add: sample_env_def state_update_def)
qed

section \<open>Open and archived cards\<close>

lemma write_cards_sheet1:
  "worksheet1 (write_cards e lsts wb cards) =
     worksheet1 wb @
       enumerate (worksheet1cellRow wb) (map (card_row e lsts) (filter is_open cards))
   \<and> worksheet1cellRow (write_cards e lsts wb cards) =
       worksheet1cellRow wb + length (filter is_open cards)"
  by (induction cards arbitrary: wb) (simp_all add: write_card_def)

lemma write_cards_sheet2:
  "worksheet2 (write_cards e lsts wb cards) =
     worksheet2 wb @
       enumerate (worksheet2cellRow wb)
         (map (card_row e lsts) (filter (\<lambda>c. \<not> is_open c) cards))
   \<and> worksheet2cellRow (write_cards e lsts wb cards) =
       worksheet2cellRow wb + length (filter (\<lambda>c. \<not> is_open c) cards)"
  by (induction cards arbitrary: wb) (simp_all add: write_card_def)

lemma directories_disjoint: "pathToCards @ x \<noteq> pathToArchived @ y"
proof
  assume "pathToCards @ x = pathToArchived @ y"
  then have "(pathToCards @ x) ! 10 = (pathToArchived @ y) ! 10" by simp
  then show False by (simp add: pathToCards_def pathToArchived_def path_def py_def nth_append)
qed

lemma attachments_apart:
  "pathToCards @ x \<noteq> pathToAttachments @ y" "pathToArchived @ x \<noteq> pathToAttachments @ y"
proof -
  show "pathToCards @ x \<noteq> pathToAttachments @ y"
  proof
    assume "pathToCards @ x = pathToAttachments @ y"
    then have "(pathToCards @ x) ! 10 = (pathToAttachments @ y) ! 10" by simp
    then show False
      by (simp add: pathToCards_def pathToAttachments_def path_def py_def nth_append)
  qed
  show "pathToArchived @ x \<noteq> pathToAttachments @ y"
  proof
    assume "pathToArchived @ x = pathToAttachments @ y"
    then have "(pathToArchived @ x) ! 11 = (pathToAttachments @ y) ! 11" by simp
    then show False
      by (simp add: pathToArchived_def pathToAttachments_def path_def py_def nth_append)
  qed
qed

lemma doc_path_apart: "doc_path e c \<noteq> pathToAttachments @ y"
  using attachments_apart by (simp add: doc_path_def)

lemma remove_if_exists_result:
  "remove_if_exists w p st = Inr st' \<Longrightarrow>
     st_saved st' = st_saved st \<and> st_out st' = st_out st \<and> st_files st' = (st_files st)(p := None)"
  by (auto simp: remove_if_exists_def split: option.splits if_splits)

lemma attachments_loop_result:
  "attachments_loop e w c atts st attachments status_code = Inr (st', r) \<Longrightarrow>
     r = attachments @ map (attachment_entry_of e c) (filter (downloaded w) atts) \<and>
     st_saved st' = st_saved st \<and>
     (\<forall>p. (\<forall>x. p \<noteq> pathToAttachments @ x) \<longrightarrow> st_files st' p = st_files st p)"
proof (induction atts arbitrary: st attachments status_code)
  case Nil
  then show ?case by simp
next
  case (Cons a atts)
  let ?name = "sanitize_filename (unicode_nfkd e) (str_int (cd_idShort c) @ py ''-'' @ at_name a)"
  from Cons.prems obtain st1 where
    rm: "remove_if_exists w (pathToAttachments @ ?name) st = Inr st1"
    by (auto simp: Let_def split: sum.splits)
  note r1 = remove_if_exists_result [OF rm]
  let ?st2 = "print [Msg_downloading ?name] st1"
  show ?case
  proof (cases "w_download w (at_url a)")
    case TransportError
    let ?st3 = "print [Msg_oops, Msg_cannot_download ?name, Msg_response_code status_code] ?st2"
    have "attachments_loop e w c atts ?st3 attachments status_code = Inr (st', r)"
      using Cons.prems rm TransportError by (simp add: Let_def)
    from Cons.IH [OF this] show ?thesis
      using r1 TransportError by (simp add: print_def downloaded_def)
  next
    case (Response code content)
    let ?st3 = "?st2\<lparr>st_files := (st_files ?st2)(pathToAttachments @ ?name \<mapsto> Bytes content)\<rparr>"
    have "attachments_loop e w c atts ?st3
        (attachments @ [\<lparr>te_fileName = ?name, te_date = fmt_date e (at_date a)\<rparr>]) code = Inr (st', r)"
      using Cons.prems rm Response by (simp add: Let_def split: if_splits)
    from Cons.IH [OF this] show ?thesis
      using r1 Response by (simp add: print_def downloaded_def attachment_entry_of_def)
  qed
qed

lemma download_attachments_result:
  "download_attachments e w c st = Inr (st', r) \<Longrightarrow>
     r = attachment_entries e w c \<and> st_saved st' = st_saved st \<and>
     (\<forall>p. (\<forall>x. p \<noteq> pathToAttachments @ x) \<longrightarrow> st_files st' p = st_files st p)"
  using attachments_loop_result [of e w c _ st "[]" 200 st' r]
  by (auto simp: download_attachments_def attachment_entries_def split: option.splits if_splits)

lemma save_document_result:
  "save_document e w c ctx st = Inr st' \<Longrightarrow>
     st_saved st' = st_saved st @ [(doc_path e c, ctx)] \<and>
     st_files st' = (st_files st)(doc_path e c \<mapsto> Docx ctx)"
  by (auto simp: save_document_def save_def doc_path_def
      split: if_splits sum.splits dest!: remove_if_exists_result)

lemma export_card_result:
  assumes "export_card e w lsts st summary = Inr st'"
  shows "\<exists>c. detail w summary = Some c \<and>
           st_saved st' = st_saved st @ [(doc_path e c, card_context e w lsts c)] \<and>
           st_files st' (doc_path e c) = Some (Docx (card_context e w lsts c)) \<and>
           (\<forall>p. p \<noteq> doc_path e c \<and> (\<forall>x. p \<noteq> pathToAttachments @ x) \<longrightarrow>
                st_files st' p = st_files st p)"
proof (cases "w_card w (cd_id summary)")
  case TransportError
  with assms show ?thesis by (simp add: export_card_def)
next
  case (Response status_code c)
  with assms have ok: "status_code = 200"
    by (simp add: export_card_def split: if_splits)
  let ?st1 = "print [Msg_card (cd_idShort c) (cd_name c)] st"
  from assms Response ok obtain st2 attachments where
    d: "download_attachments e w c ?st1 = Inr (st2, attachments)"
    and s: "save_document e w c (build_context e lsts c attachments) st2 = Inr st'"
    by (auto simp: export_card_def split: sum.splits)
  from download_attachments_result [OF d]
  have a: "attachments = attachment_entries e w c" and s2: "st_saved st2 = st_saved st"
    and f2: "\<forall>p. (\<forall>x. p \<noteq> pathToAttachments @ x) \<longrightarrow> st_files st2 p = st_files st p"
    by (simp_all add: print_def)
  from save_document_result [OF s]
  have sv: "st_saved st' = st_saved st2 @ [(doc_path e c, card_context e w lsts c)]"
    and fl: "st_files st' = (st_files st2)(doc_path e c \<mapsto> Docx (card_context e w lsts c))"
    by (simp_all add: a card_context_def)
  have "detail w summary = Some c" using Response ok by (simp add: detail_def)
  with sv fl s2 f2 show ?thesis by auto
qed

lemma export_cards_result:
  "export_cards e w lsts st cards = Inr st' \<Longrightarrow>
     \<exists>ds. map (detail w) cards = map Some ds \<and>
       st_saved st' = st_saved st @ map (\<lambda>d. (doc_path e d, card_context e w lsts d)) ds \<and>
       (distinct (map (doc_path e) ds) \<longrightarrow>
          (\<forall>d\<in>set ds. st_files st' (doc_path e d) = Some (Docx (card_context e w lsts d)))) \<and>
       (\<forall>p. p \<notin> doc_path e ` set ds \<and> (\<forall>x. p \<noteq> pathToAttachments @ x) \<longrightarrow>
            st_files st' p = st_files st p)"
proof (induction cards arbitrary: st)
  case Nil
  then show ?case by simp
next
  case (Cons c cards)
  from Cons.prems obtain st1 where 1: "export_card e w lsts st c = Inr st1"
    and 2: "export_cards e w lsts st1 cards = Inr st'"
    by (auto split: sum.splits)
  from export_card_result [OF 1] obtain d where d: "detail w c = Some d"
    and ds1: "st_saved st1 = st_saved st @ [(doc_path e d, card_context e w lsts d)]"
    and df: "st_files st1 (doc_path e d) = Some (Docx (card_context e w lsts d))"
    and dp: "\<forall>p. p \<noteq> doc_path e d \<and> (\<forall>x. p \<noteq> pathToAttachments @ x) \<longrightarrow>
                st_files st1 p = st_files st p"
    by blast
  from Cons.IH [OF 2] obtain ds where m: "map (detail w) cards = map Some ds"
    and sv: "st_saved st' = st_saved st1 @ map (\<lambda>d. (doc_path e d, card_context e w lsts d)) ds"
    and fi: "distinct (map (doc_path e) ds) \<longrightarrow>
          (\<forall>d\<in>set ds. st_files st' (doc_path e d) = Some (Docx (card_context e w lsts d)))"
    and pr: "\<forall>p. p \<notin> doc_path e ` set ds \<and> (\<forall>x. p \<noteq> pathToAttachments @ x) \<longrightarrow>
            st_files st' p = st_files st1 p"
    by blast
  have a: "map (detail w) (c # cards) = map Some (d # ds)" using d m by simp
  have b: "st_saved st' =
      st_saved st @ map (\<lambda>d. (doc_path e d, card_context e w lsts d)) (d # ds)"
    using ds1 sv by simp
  have c: "distinct (map (doc_path e) (d # ds)) \<longrightarrow>
          (\<forall>x\<in>set (d # ds). st_files st' (doc_path e x) = Some (Docx (card_context e w lsts x)))"
  proof
    assume dist: "distinct (map (doc_path e) (d # ds))"
    then have "doc_path e d \<notin> doc_path e ` set ds" by simp
    then have "st_files st' (doc_path e d) = st_files st1 (doc_path e d)"
      using pr doc_path_apart by blast
    with df fi dist
    show "\<forall>x\<in>set (d # ds). st_files st' (doc_path e x) = Some (Docx (card_context e w lsts x))"
      by simp
  qed
  have p: "\<forall>p. p \<notin> doc_path e ` set (d # ds) \<and> (\<forall>x. p \<noteq> pathToAttachments @ x) \<longrightarrow>
            st_files st' p = st_files st p"
    using pr dp by simp
  from a b c p show ?case by blast
qed

lemma run_result:
  assumes "run e w stdin st = Inr (wb, st')"
  shows "\<exists>(b::board) lsts cards st1. w_cards w (bd_id b) = Response 200 cards \<and>
       wb = write_cards e lsts new_workbook cards \<and>
       export_cards e w lsts st1 cards = Inr st'"
proof -
  from assms obtain boards b lsts cards wb1 st1 where
    "get_cards w (bd_id b) = Inr cards"
    and eb: "export_board e w lsts b cards st = Inr (wb1, st1)"
    and ec: "export_cards e w lsts st1 cards = Inr st'" and wb: "wb = wb1"
    by (auto simp: run_def split: sum.splits prod.splits)
  then have "w_cards w (bd_id b) = Response 200 cards"
    by (auto simp: get_cards_def split: response.splits if_splits)
  moreover have "wb1 = write_cards e lsts new_workbook cards"
    using eb by (auto simp: export_board_def Let_def split: sum.splits if_splits)
  ultimately show ?thesis using ec wb by auto
qed

text \<open>
  C4 (as amended): every card of the bulk answer has its row in exactly one sheet, the
  first when \<^verbatim>\<open>str\<close> of its flag \<^verbatim>\<open>closed\<close> is \<^verbatim>\<open>False\<close> and the second otherwise, at the
  row numbers 1, 2, ... of that sheet, so that the two sheets divide the cards between
  them. When the document pass comes to its end, each card was fetched in full and there
  was exactly one call of \<^verbatim>\<open>save\<close> for it, in the order of the cards, with the context of
  the card fetched in full, under \<^verbatim>\<open>cards/\<close> when \<^verbatim>\<open>str\<close> of the flag of that card is
  \<^verbatim>\<open>False\<close> and under \<^verbatim>\<open>archived/\<close> otherwise: the row follows the flag of the bulk answer
  and the document the flag of the full answer, and they fall into the same bucket when
  the two answers carry the same flag. No path lies in both directories. When the paths
  of the documents are pairwise distinct, the file at the path of each card is, at the
  end, the document of that card. A run that comes to its end is such a pass over the
  cards of the bulk answer.
\<close>

theorem buckets_by_each_answer:
  "worksheet1 (write_cards e lsts new_workbook cards) =
      enumerate 1 (map (card_row e lsts) (filter is_open cards))
   \<and> worksheet2 (write_cards e lsts new_workbook cards) =
      enumerate 1 (map (card_row e lsts) (filter (\<lambda>c. \<not> is_open c) cards))
   \<and> mset (map snd (worksheet1 (write_cards e lsts new_workbook cards))) +
      mset (map snd (worksheet2 (write_cards e lsts new_workbook cards))) =
      mset (map (card_row e lsts) cards)
   \<and> (export_cards e w lsts st cards = Inr st' \<longrightarrow>
        (\<exists>ds. map (detail w) cards = map Some ds
           \<and> st_saved st' =
               st_saved st @ map (\<lambda>d. (doc_path e d, card_context e w lsts d)) ds
           \<and> (distinct (map (doc_path e) ds) \<longrightarrow>
                (\<forall>d\<in>set ds. st_files st' (doc_path e d) = Some (Docx (card_context e w lsts d))))
           \<and> (\<forall>i<length cards. cd_closed (ds ! i) = cd_closed (cards ! i) \<longrightarrow>
                 is_open (ds ! i) = is_open (cards ! i))))
   \<and> (run e w stdin st = Inr (wb, st') \<longrightarrow>
        (\<exists>(b::board) lsts cards st1. w_cards w (bd_id b) = Response 200 cards \<and>
           wb = write_cards e lsts new_workbook cards \<and>
           export_cards e w lsts st1 cards = Inr st'))
   \<and> doc_path e c = (if is_open c then pathToCards else pathToArchived) @ outputFileName e c
   \<and> (\<forall>x y. pathToCards @ x \<noteq> pathToArchived @ y)
   \<and> (cd_closed c = cd_closed c' \<longrightarrow> is_open c = is_open c')
   \<and> (is_open c \<longleftrightarrow> str_json (cd_closed c) = py ''False'')"
proof -
  have 1: "worksheet1 (write_cards e lsts new_workbook cards) =
      enumerate 1 (map (card_row e lsts) (filter is_open cards))"
    using write_cards_sheet1 [of e lsts new_workbook cards] by (simp add: new_workbook_def)
  have 2: "worksheet2 (write_cards e lsts new_workbook cards) =
      enumerate 1 (map (card_row e lsts) (filter (\<lambda>c. \<not> is_open c) cards))"
    using write_cards_sheet2 [of e lsts new_workbook cards] by (simp add: new_workbook_def)
  have "mset (filter is_open cards) + mset (filter (\<lambda>c. \<not> is_open c) cards) = mset cards"
    by simp
  then have "mset (map (card_row e lsts) (filter is_open cards)) +
      mset (map (card_row e lsts) (filter (\<lambda>c. \<not> is_open c) cards)) =
      mset (map (card_row e lsts) cards)"
    by (metis image_mset_union mset_map)
  then have 3: "mset (map snd (worksheet1 (write_cards e lsts new_workbook cards))) +
      mset (map snd (worksheet2 (write_cards e lsts new_workbook cards))) =
      mset (map (card_row e lsts) cards)"
    unfolding 1 2 by (simp only: map_snd_enumerate)
  have 4: "export_cards e w lsts st cards = Inr st' \<longrightarrow>
        (\<exists>ds. map (detail w) cards = map Some ds
           \<and> st_saved st' =
               st_saved st @ map (\<lambda>d. (doc_path e d, card_context e w lsts d)) ds
           \<and> (distinct (map (doc_path e) ds) \<longrightarrow>
                (\<forall>d\<in>set ds. st_files st' (doc_path e d) = Some (Docx (card_context e w lsts d))))
           \<and> (\<forall>i<length cards. cd_closed (ds ! i) = cd_closed (cards ! i) \<longrightarrow>
                 is_open (ds ! i) = is_open (cards ! i)))"
  proof
    assume "export_cards e w lsts st cards = Inr st'"
    from export_cards_result [OF this] obtain ds where
      "map (detail w) cards = map Some ds"
      "st_saved st' = st_saved st @ map (\<lambda>d. (doc_path e d, card_context e w lsts d)) ds"
      "distinct (map (doc_path e) ds) \<longrightarrow>
          (\<forall>d\<in>set ds. st_files st' (doc_path e d) = Some (Docx (card_context e w lsts d)))"
      by blast
    moreover have "\<forall>i<length cards. cd_closed (ds ! i) = cd_closed (cards ! i) \<longrightarrow>
                 is_open (ds ! i) = is_open (cards ! i)"
      by (simp add: is_open_def)
    ultimately show "\<exists>ds. map (detail w) cards = map Some ds
           \<and> st_saved st' =
               st_saved st @ map (\<lambda>d. (doc_path e d, card_context e w lsts d)) ds
           \<and> (distinct (map (doc_path e) ds) \<longrightarrow>
                (\<forall>d\<in>set ds. st_files st' (doc_path e d) = Some (Docx (card_context e w lsts d))))
           \<and> (\<forall>i<length cards. cd_closed (ds ! i) = cd_closed (cards ! i) \<longrightarrow>
                 is_open (ds ! i) = is_open (cards ! i))"
      by blast
  qed
  have 5: "run e w stdin st = Inr (wb, st') \<longrightarrow>
        (\<exists>(b::board) lsts cards st1. w_cards w (bd_id b) = Response 200 cards \<and>
           wb = write_cards e lsts new_workbook cards \<and>
           export_cards e w lsts st1 cards = Inr st')"
    using run_result [of e w stdin st wb st'] by blast
  have 6: "cd_closed c = cd_closed c' \<longrightarrow> is_open c = is_open c'"
    by (simp add: is_open_def)
  have 7: "doc_path e c = (if is_open c then pathToCards else pathToArchived) @ outputFileName e c"
    by (simp add: doc_path_def)
  have 8: "is_open c \<longleftrightarrow> str_json (cd_closed c) = py ''False''"
    by (simp add: is_open_def)
  from 1 2 3 4 5 6 7 8 directories_disjoint show ?thesis by blast
qed

theorem buckets_by_each_answer_witness:
  "worksheet1 (write_cards sample_env [] new_workbook [open_card, archived_card]) =
      [(1, card_row sample_env [] open_card)]
   \<and> worksheet2 (write_cards sample_env [] new_workbook [open_card, archived_card]) =
      [(1, card_row sample_env [] archived_card)]
   \<and> (\<exists>st'. export_cards sample_env (sample_world [open_card, archived_card]) [] empty_state
               [open_card, archived_card] = Inr st'
          \<and> map fst (st_saved st') =
              [py ''./exports/cards/A.docx'', py ''./exports/archived/B.docx'']
          \<and> st_files st' (py ''./exports/cards/A.docx'') =
              Some (Docx (card_context sample_env (sample_world [open_card, archived_card]) []
                            open_card))
          \<and> st_files st' (py ''./exports/archived/B.docx'') =
              Some (Docx (card_context sample_env (sample_world [open_card, archived_card]) []
                            archived_card)))"
proof -
  let ?w = "sample_world [open_card, archived_card]"
  let ?cards = "[open_card, archived_card]"
  have ids: "cd_id open_card = py ''a''" "cd_id archived_card = py ''b''" "py ''b'' \<noteq> py ''a''"
    by (simp_all add: open_card_def archived_card_def py_def)
  have o: "is_open open_card" "\<not> is_open archived_card"
    by (simp_all add: is_open_def open_card_def archived_card_def sample_card_def py_def)
  have d: "detail ?w open_card = Some open_card" "detail ?w archived_card = Some archived_card"
    using ids by (simp_all add: detail_def sample_world_def)
  have p1: "doc_path sample_env open_card = py ''./exports/cards/A.docx''"
    by code_simp
  have p2: "doc_path sample_env archived_card = py ''./exports/archived/B.docx''"
    by code_simp
  have ne: "py ''./exports/cards/A.docx'' \<noteq> py ''./exports/archived/B.docx''"
    by (simp add: py_def)
  have "\<not> isl (export_cards sample_env ?w [] empty_state ?cards)"
    by code_simp
  then obtain st' where ex: "export_cards sample_env ?w [] empty_state ?cards = Inr st'"
    by (cases "export_cards sample_env ?w [] empty_state ?cards") simp_all
  from buckets_by_each_answer
    [of sample_env "[]" ?cards ?w empty_state st' "[]" new_workbook open_card open_card] ex
  obtain ds where ds: "map (detail ?w) ?cards = map Some ds"
    and sv: "st_saved st' = st_saved empty_state @
        map (\<lambda>d. (doc_path sample_env d, card_context sample_env ?w [] d)) ds"
    and fi: "distinct (map (doc_path sample_env) ds) \<longrightarrow>
        (\<forall>d\<in>set ds. st_files st' (doc_path sample_env d) =
            Some (Docx (card_context sample_env ?w [] d)))"
    and s1: "worksheet1 (write_cards sample_env [] new_workbook ?cards) =
      enumerate 1 (map (card_row sample_env []) (filter is_open ?cards))"
    and s2: "worksheet2 (write_cards sample_env [] new_workbook ?cards) =
      enumerate 1 (map (card_row sample_env []) (filter (\<lambda>c. \<not> is_open c) ?cards))"
    by blast
  from ds d have dsv: "ds = ?cards" by (auto simp: map_eq_Cons_conv)
  have 1: "map fst (st_saved st') =
      [py ''./exports/cards/A.docx'', py ''./exports/archived/B.docx'']"
    using sv p1 p2 unfolding dsv by (simp add: empty_state_def)
  have "distinct (map (doc_path sample_env) ds)" unfolding dsv using p1 p2 ne by simp
  with fi have 2: "st_files st' (py ''./exports/cards/A.docx'') =
      Some (Docx (card_context sample_env ?w [] open_card))"
    "st_files st' (py ''./exports/archived/B.docx'') =
      Some (Docx (card_context sample_env ?w [] archived_card))"
    unfolding dsv using p1 p2 by simp_all
  from ex 1 2 s1 s2 o show ?thesis by auto
qed

text \<open>
  C4 as first stated fails when the two answers differ: a card that is open in the bulk
  answer and archived when fetched in full has its row in the first sheet and its
  document under \<^verbatim>\<open>archived/\<close>. And two open cards with the titles \<^verbatim>\<open>A\<close> and \<^verbatim>\<open>A!\<close> are
  both saved under \<^verbatim>\<open>cards/A.docx\<close>, where the second document replaces the first.
\<close>

theorem buckets_counterexample:
  "\<not> isl (run sample_env changing_world [] empty_state)
   \<and> worksheet1 (fst (projr (run sample_env changing_world [] empty_state))) =
       [(1, card_row sample_env [] open_card)]
   \<and> worksheet2 (fst (projr (run sample_env changing_world [] empty_state))) = []
   \<and> map fst (st_saved (snd (projr (run sample_env changing_world [] empty_state)))) =
       [py ''./exports/archived/A.docx'']
   \<and> map fst (st_saved (projr (export_cards sample_env
         (sample_world [open_card, open_card_bang]) [] empty_state
         [open_card, open_card_bang]))) =
       [py ''./exports/cards/A.docx'', py ''./exports/cards/A.docx'']"
  by code_simp

section \<open>Escaping in the context and failed downloads\<close>

text \<open>
  C1 fails on the labels. The name of every label is escaped when the labels are joined,
  and the joined string is escaped once more when it is put into the context: a label
  \<^verbatim>\<open>A&B\<close> arrives as \<^verbatim>\<open>A&amp;amp;B\<close>, while the title \<^verbatim>\<open>A&B\<close> of the same card arrives
  as \<^verbatim>\<open>A&amp;B\<close>.
\<close>

theorem labels_escaped_twice:
  "ctx_labels (build_context sample_env [] labelled_card []) = py ''A&amp;amp;B''
   \<and> ctx_labels (build_context sample_env [] labelled_card []) =
       escape_xml (escape_xml (py ''A&B''))
   \<and> ctx_title (build_context sample_env [] labelled_card []) = py ''A&amp;B''
   \<and> escape_xml (py ''A&B'') = py ''A&amp;B''"
  by code_simp

lemma checkItems_loop_result:
  "checkItems_loop e c items n acc =
     (n + length (filter (\<lambda>item. ci_state item = py ''complete'') items),
      acc @ map (checkItem_entry e c) items)"
  by (induction items arbitrary: n acc) simp_all

lemma context_fields_escaped_once:
  "ctx_title (build_context e lsts c atts) = escape_xml (cd_name c)
   \<and> ctx_list (build_context e lsts c atts) = escape_xml (lists_get_name (cd_idList c) lsts)
   \<and> ctx_description (build_context e lsts c atts) = escape_xml (cd_desc c)
   \<and> ce_name (checklist_entry_of e c cl) = escape_xml (cl_name cl)
   \<and> ie_name (checkItem_entry e c item) = escape_xml (ci_name item)"
  by (simp add: build_context_def checklist_entry_of_def checkItem_entry_def Let_def
      checkItems_loop_result)

lemma context_labels_escaped_again:
  "cd_labels c \<noteq> [] \<Longrightarrow>
     ctx_labels (build_context e lsts c atts) =
       escape_xml (py_join (py '', '')
         (map (\<lambda>l. escape_xml (lb_name l)) (filter (\<lambda>l. lb_name l \<noteq> []) (cd_labels c))))"
  by (simp add: build_context_def cardLabels_def)

lemma remove_refused_fatal:
  "st_files st p = Some f \<Longrightarrow> \<not> w_removable w p \<Longrightarrow> remove_if_exists w p st = Inl SysExit"
  by (simp add: remove_if_exists_def)

lemma attachment_any_status_kept:
  assumes "w_download w (at_url a) = Response code content"
    and "st_files st (pathToAttachments @ te_fileName (attachment_entry_of e c a)) = None"
    and "w_writable w (pathToAttachments @ te_fileName (attachment_entry_of e c a))"
  shows "\<exists>st'. attachments_loop e w c [a] st attachments status_code =
             Inr (st', attachments @ [attachment_entry_of e c a]) \<and>
           st_files st' (pathToAttachments @ te_fileName (attachment_entry_of e c a)) =
             Some (Bytes content)"
  using assms by (simp add: Let_def remove_if_exists_def attachment_entry_of_def print_def)

lemma attachment_unwritable_fatal:
  assumes "w_download w (at_url a) = Response code content"
    and "st_files st (pathToAttachments @ te_fileName (attachment_entry_of e c a)) = None"
    and "\<not> w_writable w (pathToAttachments @ te_fileName (attachment_entry_of e c a))"
  shows "attachments_loop e w c (a # rest) st attachments status_code = Inl OSError"
  using assms by (simp add: Let_def remove_if_exists_def attachment_entry_of_def)

lemma attachment_exception_skipped:
  assumes "w_download w (at_url a) = TransportError"
    and "st_files st (pathToAttachments @ te_fileName (attachment_entry_of e c a)) = None"
  shows "\<exists>st'. attachments_loop e w c [a] st attachments status_code = Inr (st', attachments) \<and>
           st_files st' = st_files st"
  using assms by (simp add: Let_def remove_if_exists_def attachment_entry_of_def print_def)

lemma export_card_fatal:
  "detail w summary = None \<Longrightarrow> \<exists>err. export_card e w lsts st summary = Inl err"
  by (auto simp: detail_def export_card_def split: response.splits if_splits)

lemma export_cards_fatal:
  "c \<in> set cards \<Longrightarrow> detail w c = None \<Longrightarrow> \<exists>err. export_cards e w lsts st cards = Inl err"
proof (induction cards arbitrary: st)
  case Nil
  then show ?case by simp
next
  case (Cons x cards)
  show ?case
  proof (cases "export_card e w lsts st x")
    case (Inl err)
    then show ?thesis by simp
  next
    case (Inr st1)
    with Cons.prems export_card_fatal [of w x e lsts st] have "c \<in> set cards" by auto
    from Cons.IH [OF this Cons.prems(2)] Inr show ?thesis by simp
  qed
qed

lemma fetch_failure_fatal:
  "w_boards w = TransportError \<or> (\<exists>code body. w_boards w = Response code body \<and> code \<noteq> 200)
     \<Longrightarrow> run e w stdin st = Inl SysExit"
  by (auto simp: run_def get_boards_def)

text \<open>
  C5 fails on a download that is answered with an error status. The loop never looks at
  the status code of a download: the body of a 404 answer is written to the file and the
  attachment is put into the context, without any message. Only a request that raises
  is reported and skipped.
\<close>

theorem attachment_non200_kept:
  "\<not> isl (download_attachments sample_env
          (no_service\<lparr>w_download := (\<lambda>_. Response 404 (py ''Not Found''))\<rparr>)
          card_with_attachment empty_state)
   \<and> snd (projr (download_attachments sample_env
          (no_service\<lparr>w_download := (\<lambda>_. Response 404 (py ''Not Found''))\<rparr>)
          card_with_attachment empty_state))
     = [\<lparr>te_fileName = py ''1-f.txt'', te_date = py ''d''\<rparr>]
   \<and> st_files (fst (projr (download_attachments sample_env
          (no_service\<lparr>w_download := (\<lambda>_. Response 404 (py ''Not Found''))\<rparr>)
          card_with_attachment empty_state))) (py ''./exports/attachments/1-f.txt'')
     = Some (Bytes (py ''Not Found''))
   \<and> st_out (fst (projr (download_attachments sample_env
          (no_service\<lparr>w_download := (\<lambda>_. Response 404 (py ''Not Found''))\<rparr>)
          card_with_attachment empty_state)))
     = [Msg_downloading (py ''1-f.txt'')]
   \<and> \<not> isl (download_attachments sample_env no_service card_with_attachment empty_state)
   \<and> snd (projr (download_attachments sample_env no_service card_with_attachment empty_state))
     = []
   \<and> st_files (fst (projr (download_attachments sample_env no_service card_with_attachment
          empty_state))) (py ''./exports/attachments/1-f.txt'') = None
   \<and> st_out (fst (projr (download_attachments sample_env no_service card_with_attachment
          empty_state)))
     = [Msg_downloading (py ''1-f.txt''), Msg_oops, Msg_cannot_download (py ''1-f.txt''),
        Msg_response_code 200]"
  by code_simp

section \<open>The completion percentage of a checklist\<close>

lemma bits_bounds: "0 < n \<Longrightarrow> 2 ^ (bits n - 1) \<le> n \<and> n < 2 ^ bits n"
proof (induction n rule: bits.induct)
  case (1 n)
  show ?case
  proof (cases "n div 2 \<le> 0")
    case True
    with "1.prems" have "n = 1" by simp
    then show ?thesis by (simp add: bits.simps)
  next
    case False
    then have pos: "0 < n div 2" by simp
    from "1.IH" "1.prems" pos
    have ih: "2 ^ (bits (n div 2) - 1) \<le> n div 2 \<and> n div 2 < 2 ^ bits (n div 2)" by simp
    have b: "bits n = Suc (bits (n div 2))" using "1.prems" by (subst bits.simps) simp
    have bp: "0 < bits (n div 2)" using pos by (subst bits.simps) simp
    then have e: "(2::int) ^ bits (n div 2) = 2 * 2 ^ (bits (n div 2) - 1)"
      by (cases "bits (n div 2)") simp_all
    from ih e have "2 ^ bits (n div 2) \<le> 2 * (n div 2)" by simp
    also have "\<dots> \<le> n" by simp
    finally have lo: "2 ^ (bits n - 1) \<le> n" by (simp add: b)
    have "n < 2 * (n div 2) + 2" by simp
    also have "\<dots> \<le> 2 * 2 ^ bits (n div 2)" using ih by simp
    finally have hi: "n < 2 ^ bits n" by (simp add: b)
    from lo hi show ?thesis by simp
  qed
qed

lemma round_half_even_bound: "\<bar>of_int (round_half_even t) - t\<bar> \<le> 1 / 2"
proof -
  have "of_int \<lfloor>t\<rfloor> \<le> t" "t < of_int \<lfloor>t\<rfloor> + 1" by linarith+
  then show ?thesis
    by (simp add: round_half_even_def Let_def)
qed

lemma round_half_even_nonneg: "0 \<le> t \<Longrightarrow> 0 \<le> round_half_even t"
proof -
  assume "0 \<le> t"
  then have "0 \<le> \<lfloor>t\<rfloor>" by simp
  then show ?thesis by (simp add: round_half_even_def Let_def)
qed

lemma ilog2_bounds:
  assumes "0 < x"
  shows "2 powi ilog2 x \<le> x \<and> x < 2 powi (ilog2 x + 1)"
proof -
  obtain a b where q: "quotient_of x = (a, b)" by (cases "quotient_of x")
  then have b: "0 < b" by (rule quotient_of_denom_pos)
  have x: "x = of_int a / of_int b" using q by (rule quotient_of_div)
  have a: "0 < a" using assms b unfolding x by (simp add: zero_less_divide_iff)
  let ?d = "int (bits a) - int (bits b)"
  from bits_bounds [OF a] have a1: "(2::rat) ^ (bits a - 1) \<le> of_int a"
    and a2: "(of_int a :: rat) < 2 ^ bits a"
    by (metis of_int_le_iff of_int_numeral of_int_power, metis of_int_less_iff of_int_numeral of_int_power)
  from bits_bounds [OF b] have b1: "(2::rat) ^ (bits b - 1) \<le> of_int b"
    and b2: "(of_int b :: rat) < 2 ^ bits b"
    by (metis of_int_le_iff of_int_numeral of_int_power, metis of_int_less_iff of_int_numeral of_int_power)
  have pa: "0 < bits a" using a by (subst bits.simps) simp
  have pb: "0 < bits b" using b by (subst bits.simps) simp
  have bpos: "(0::rat) < of_int b" using b by simp
  have lo: "(2::rat) powi (?d - 1) \<le> x"
  proof -
    have "(2::rat) powi (?d - 1) = 2 powi (int (bits a - 1) - int (bits b))"
      using pa by (simp add: of_nat_diff algebra_simps)
    also have "\<dots> = 2 ^ (bits a - 1) / 2 ^ bits b"
      by (simp add: power_int_diff)
    also have "\<dots> \<le> of_int a / 2 ^ bits b" using a1 by (simp add: divide_right_mono)
    also have "\<dots> \<le> of_int a / of_int b"
      using b2 bpos a by (intro divide_left_mono) (simp_all add: less_imp_le)
    finally show ?thesis unfolding x .
  qed
  have hi: "x < (2::rat) powi (?d + 1)"
  proof -
    have "x < 2 ^ bits a / of_int b" unfolding x using a2 bpos by (simp add: divide_strict_right_mono)
    also have "\<dots> \<le> 2 ^ bits a / 2 ^ (bits b - 1)"
      using b1 bpos by (intro divide_left_mono) simp_all
    also have "\<dots> = 2 powi (int (bits a) - int (bits b - 1))"
      by (simp add: power_int_diff)
    also have "\<dots> = 2 powi (?d + 1)"
      using pb by (simp add: of_nat_diff algebra_simps)
    finally show ?thesis .
  qed
  show ?thesis
  proof (cases "2 powi ?d \<le> x")
    case True
    then have "ilog2 x = ?d" by (simp add: ilog2_def q)
    with True hi show ?thesis by simp
  next
    case False
    then have "ilog2 x = ?d - 1" by (simp add: ilog2_def q)
    with False lo show ?thesis by simp
  qed
qed

lemma fl_error:
  assumes "0 < x"
  shows "\<bar>fl x - x\<bar> \<le> x / 2 ^ 53" and "0 \<le> fl x"
proof -
  let ?ulp = "(2::rat) powi (ilog2 x - 52)"
  let ?r = "round_half_even (x / ?ulp)"
  have up: "0 < ?ulp" by simp
  have fl: "fl x = of_int ?r * ?ulp" using assms by (simp add: fl_def Let_def)
  have "fl x - x = (of_int ?r - x / ?ulp) * ?ulp" using up by (simp add: fl field_simps)
  then have "\<bar>fl x - x\<bar> = \<bar>of_int ?r - x / ?ulp\<bar> * ?ulp"
    using up by (simp add: abs_mult)
  also have "\<dots> \<le> (1 / 2) * ?ulp"
    using round_half_even_bound [of "x / ?ulp"] up by (intro mult_right_mono) simp_all
  also have "\<dots> = 2 powi ilog2 x / 2 ^ 53"
    by (simp add: power_int_diff)
  also have "\<dots> \<le> x / 2 ^ 53"
    using ilog2_bounds [OF assms] by (simp add: divide_right_mono)
  finally show "\<bar>fl x - x\<bar> \<le> x / 2 ^ 53" .
  have "0 \<le> x / ?ulp" using assms up by simp
  then have "0 \<le> ?r" by (rule round_half_even_nonneg)
  then show "0 \<le> fl x" unfolding fl using up by simp
qed

lemma fl_zero: "fl 0 = 0"
  by (simp add: fl_def)

lemma product_float_error:
  assumes "0 \<le> x" "x \<le> 1"
  shows "\<bar>fl (fl x * 100) - 100 * x\<bar> \<le> 300 / 2 ^ 53 \<and> 0 \<le> fl (fl x * 100)"
proof (cases "x = 0")
  case True
  then show ?thesis by (simp add: fl_zero)
next
  case False
  with assms have pos: "0 < x" by simp
  let ?q = "fl x"
  let ?y = "fl (?q * 100)"
  from fl_error [OF pos] have q: "\<bar>?q - x\<bar> \<le> x / 2 ^ 53" by simp
  have small: "x / 2 ^ 53 < x" using pos by (simp add: field_simps)
  have qpos: "0 < ?q" using q small by linarith
  have qle: "?q \<le> 2" using q small assms(2) by linarith
  have "0 < ?q * 100" using qpos by simp
  from fl_error [OF this] have y: "\<bar>?y - ?q * 100\<bar> \<le> ?q * 100 / 2 ^ 53" and y0: "0 \<le> ?y"
    by simp_all
  have "?q * 100 / 2 ^ 53 \<le> 200 / 2 ^ 53" using qle by (simp add: field_simps)
  with y have y': "\<bar>?y - ?q * 100\<bar> \<le> 200 / 2 ^ 53" by linarith
  have "x / 2 ^ 53 \<le> 1 / 2 ^ 53" using assms(2) by (simp add: divide_right_mono)
  with q have q': "\<bar>?q - x\<bar> \<le> 1 / 2 ^ 53" by linarith
  have "?y - 100 * x = (?y - ?q * 100) + 100 * (?q - x)" by simp
  then have "\<bar>?y - 100 * x\<bar> \<le> \<bar>?y - ?q * 100\<bar> + \<bar>100 * (?q - x)\<bar>"
    using abs_triangle_ineq [of "?y - ?q * 100" "100 * (?q - x)"] by simp
  also have "\<bar>100 * (?q - x)\<bar> = 100 * \<bar>?q - x\<bar>" by (simp only: abs_mult abs_numeral)
  also have "\<bar>?y - ?q * 100\<bar> + 100 * \<bar>?q - x\<bar> \<le> 200 / 2 ^ 53 + 100 * (1 / 2 ^ 53)"
    using y' q' by (intro add_mono mult_left_mono) simp_all
  also have "\<dots> = 300 / 2 ^ 53" by simp
  finally show ?thesis using y0 by simp
qed

lemma percent_nearest:
  assumes N: "0 < N" "N < 2 ^ 40" and K: "K \<le> N"
  shows "0 \<le> round_half_even (fl (fl (of_nat K / of_nat N) * 100))"
    and "\<bar>of_int (round_half_even (fl (fl (of_nat K / of_nat N) * 100)))
           - 100 * of_nat K / (of_nat N :: rat)\<bar> \<le> 1 / 2"
proof -
  let ?x = "of_nat K / of_nat N :: rat"
  let ?y = "fl (fl ?x * 100)"
  let ?r = "round_half_even ?y"
  have Npos: "(0::rat) < of_nat N" using N(1) by simp
  have x01: "0 \<le> ?x" "?x \<le> 1" using K N(1) by simp_all
  from product_float_error [OF x01]
  have y: "\<bar>?y - 100 * ?x\<bar> \<le> 300 / 2 ^ 53" and y0: "0 \<le> ?y" by simp_all
  from y0 show "0 \<le> ?r" by (rule round_half_even_nonneg)
  have r: "\<bar>of_int ?r - ?y\<bar> \<le> 1 / 2" by (rule round_half_even_bound)
  have close: "\<bar>of_int ?r - 100 * ?x\<bar> \<le> 1 / 2 + 300 / 2 ^ 53" using r y by linarith
  let ?D = "2 * int N * ?r - 200 * int K"
  have D: "(of_int ?D :: rat) = 2 * of_nat N * (of_int ?r - 100 * ?x)"
    using Npos by (simp add: field_simps)
  have "\<bar>of_int ?D :: rat\<bar> = 2 * of_nat N * \<bar>of_int ?r - 100 * ?x\<bar>"
    unfolding D using Npos by (simp add: abs_mult)
  also have "\<dots> \<le> 2 * of_nat N * (1 / 2 + 300 / 2 ^ 53)"
    using close Npos by (intro mult_left_mono) simp_all
  also have "\<dots> = of_nat N + of_nat N * (600 / 2 ^ 53)" by (simp add: algebra_simps)
  also have "\<dots> < of_nat N + 1"
  proof -
    have "(of_nat N :: rat) < 2 ^ 40" using N(2)
      by (metis of_nat_less_iff of_nat_numeral of_nat_power)
    then have "(of_nat N :: rat) * (600 / 2 ^ 53) < 2 ^ 40 * (600 / 2 ^ 53)"
      by (intro mult_strict_right_mono) simp_all
    also have "\<dots> \<le> 1" by simp
    finally show ?thesis by simp
  qed
  finally have "\<bar>of_int ?D :: rat\<bar> < of_int (int N + 1)" by simp
  then have "\<bar>?D\<bar> < int N + 1"
    by (metis of_int_abs of_int_less_iff)
  then have "\<bar>?D\<bar> \<le> int N" by simp
  then have "\<bar>of_int ?D :: rat\<bar> \<le> of_nat N"
    by (metis of_int_abs of_int_le_iff of_int_of_nat_eq)
  then have "2 * of_nat N * \<bar>of_int ?r - 100 * ?x\<bar> \<le> (of_nat N :: rat)"
    unfolding D using Npos by (simp add: abs_mult)
  then have "\<bar>of_int ?r - 100 * ?x\<bar> \<le> 1 / 2" using Npos by (simp add: field_simps)
  then show "\<bar>of_int ?r - 100 * of_nat K / (of_nat N :: rat)\<bar> \<le> 1 / 2" by simp
qed

text \<open>
  A ratio half way between two integers goes to either neighbour, as the two roundings
  of the division and of the product decide: \<open>12.5\<close> gives 12, \<open>57.5\<close> gives 57 and
  \<open>54.5\<close> gives 55.
\<close>

lemma percent_string_ties:
  "percent_string 1 8 = py ''12%'' \<and> percent_string 115 200 = py ''57%''
   \<and> percent_string 109 200 = py ''55%''"
  by code_simp

lemma checklists_loop_set:
  "set (checklists_loop e c checklists cls) =
     set checklists \<union> checklist_entry_of e c ` {cl \<in> set cls. cl_name cl \<noteq> []}"
  by (induction cls arbitrary: checklists) (auto simp: Let_def)

lemma build_checklists_set:
  "set (build_checklists e c) =
     (case cd_checklists c of
        None \<Rightarrow> {}
      | Some cls \<Rightarrow> checklist_entry_of e c ` {cl \<in> set cls. cl_name cl \<noteq> []})"
  by (auto simp: build_checklists_def checklists_loop_set split: option.splits)

lemma entry_pcentComplet:
  "ce_pcentComplet (checklist_entry_of e c cl) =
     (if cl_checkItems cl = [] then []
      else percent_string
             (length (filter (\<lambda>item. ci_state item = py ''complete'') (cl_checkItems cl)))
             (length (cl_checkItems cl)))"
  by (simp add: checklist_entry_of_def Let_def checkItems_loop_result)

lemma entry_percent:
  "(length (cl_checkItems cl) = 0 \<longrightarrow> ce_pcentComplet (checklist_entry_of e c cl) = [])
   \<and> (0 < length (cl_checkItems cl) \<and> length (cl_checkItems cl) < 2 ^ 40 \<longrightarrow>
        (\<exists>r. ce_pcentComplet (checklist_entry_of e c cl) = str_int r @ py ''%'' \<and> 0 \<le> r \<and>
             \<bar>of_int r - 100 * of_nat (length (filter (\<lambda>item. ci_state item = py ''complete'')
                                                    (cl_checkItems cl)))
                            / (of_nat (length (cl_checkItems cl)) :: rat)\<bar> \<le> 1 / 2))"
proof -
  let ?N = "length (cl_checkItems cl)"
  let ?K = "length (filter (\<lambda>item. ci_state item = py ''complete'') (cl_checkItems cl))"
  let ?r = "round_half_even (fl (fl (of_nat ?K / of_nat ?N) * 100))"
  have KN: "?K \<le> ?N" by simp
  have "\<exists>r. ce_pcentComplet (checklist_entry_of e c cl) = str_int r @ py ''%'' \<and> 0 \<le> r \<and>
             \<bar>of_int r - 100 * of_nat ?K / (of_nat ?N :: rat)\<bar> \<le> 1 / 2"
    if N: "0 < ?N" "?N < 2 ^ 40"
  proof -
    have "ce_pcentComplet (checklist_entry_of e c cl) = str_int ?r @ py ''%''"
      using N(1) by (simp add: entry_pcentComplet percent_string_def)
    moreover have "0 \<le> ?r"
      using N KN by (rule percent_nearest(1))
    moreover have "\<bar>of_int ?r - 100 * of_nat ?K / (of_nat ?N :: rat)\<bar> \<le> 1 / 2"
      using N KN by (rule percent_nearest(2))
    ultimately show ?thesis by blast
  qed
  then show ?thesis by (simp add: entry_pcentComplet)
qed

text \<open>
  C2: every checklist of the context is the entry of a named checklist of the card, and
  every named checklist has its entry. The percentage of an entry is the empty string
  when the checklist has no check-item. With \<open>N > 0\<close> check-items, of which \<open>K\<close> is the
  number of those whose state is \<^verbatim>\<open>complete\<close>, it is the decimal form of an integer \<open>r\<close>
  followed by \<^verbatim>\<open>%\<close>, where \<open>r\<close> is an integer nearest to \<open>100 K / N\<close>: at most one half
  away from it. This is proved of the floating-point computation of the script for every
  list of fewer than \<open>2\<^sup>4\<^sup>0\<close> check-items. One complete item among three gives \<^verbatim>\<open>33%\<close>.
\<close>

theorem checklist_percent:
  "(\<forall>entry\<in>set (ctx_checklists (build_context e lsts c atts)).
      \<exists>cls cl. cd_checklists c = Some cls \<and> cl \<in> set cls \<and> cl_name cl \<noteq> [] \<and>
        entry = checklist_entry_of e c cl \<and>
        (length (cl_checkItems cl) = 0 \<longrightarrow> ce_pcentComplet entry = []) \<and>
        (0 < length (cl_checkItems cl) \<and> length (cl_checkItems cl) < 2 ^ 40 \<longrightarrow>
          (\<exists>r. ce_pcentComplet entry = str_int r @ py ''%'' \<and> 0 \<le> r \<and>
               \<bar>of_int r -
                 100 * of_nat (length (filter (\<lambda>item. ci_state item = py ''complete'')
                                          (cl_checkItems cl)))
                     / (of_nat (length (cl_checkItems cl)) :: rat)\<bar> \<le> 1 / 2)))
   \<and> (\<forall>cls. cd_checklists c = Some cls \<longrightarrow>
        (\<forall>cl\<in>set cls. cl_name cl \<noteq> [] \<longrightarrow>
           checklist_entry_of e c cl \<in> set (ctx_checklists (build_context e lsts c atts))))
   \<and> percent_string 1 3 = py ''33%''"
proof -
  have ctx: "ctx_checklists (build_context e lsts c atts) = build_checklists e c"
    by (simp add: build_context_def)
  have 1: "\<forall>entry\<in>set (build_checklists e c).
      \<exists>cls cl. cd_checklists c = Some cls \<and> cl \<in> set cls \<and> cl_name cl \<noteq> [] \<and>
        entry = checklist_entry_of e c cl \<and>
        (length (cl_checkItems cl) = 0 \<longrightarrow> ce_pcentComplet entry = []) \<and>
        (0 < length (cl_checkItems cl) \<and> length (cl_checkItems cl) < 2 ^ 40 \<longrightarrow>
          (\<exists>r. ce_pcentComplet entry = str_int r @ py ''%'' \<and> 0 \<le> r \<and>
               \<bar>of_int r -
                 100 * of_nat (length (filter (\<lambda>item. ci_state item = py ''complete'')
                                          (cl_checkItems cl)))
                     / (of_nat (length (cl_checkItems cl)) :: rat)\<bar> \<le> 1 / 2))"
  proof
    fix entry assume "entry \<in> set (build_checklists e c)"
    then obtain cls cl where "cd_checklists c = Some cls" "cl \<in> set cls" "cl_name cl \<noteq> []"
      "entry = checklist_entry_of e c cl"
      unfolding build_checklists_set by (auto split: option.splits)
    with entry_percent [of cl e c] show "\<exists>cls cl. cd_checklists c = Some cls \<and> cl \<in> set cls \<and> cl_name cl \<noteq> [] \<and>
        entry = checklist_entry_of e c cl \<and>
        (length (cl_checkItems cl) = 0 \<longrightarrow> ce_pcentComplet entry = []) \<and>
        (0 < length (cl_checkItems cl) \<and> length (cl_checkItems cl) < 2 ^ 40 \<longrightarrow>
          (\<exists>r. ce_pcentComplet entry = str_int r @ py ''%'' \<and> 0 \<le> r \<and>
               \<bar>of_int r -
                 100 * of_nat (length (filter (\<lambda>item. ci_state item = py ''complete'')
                                          (cl_checkItems cl)))
                     / (of_nat (length (cl_checkItems cl)) :: rat)\<bar> \<le> 1 / 2))"
      by blast
  qed
  have 2: "\<forall>cls. cd_checklists c = Some cls \<longrightarrow>
        (\<forall>cl\<in>set cls. cl_name cl \<noteq> [] \<longrightarrow> checklist_entry_of e c cl \<in> set (build_checklists e c))"
    unfolding build_checklists_set by auto
  have 3: "percent_string 1 3 = py ''33%''" by code_simp
  from 1 2 3 show ?thesis unfolding ctx by blast
qed

theorem checklist_percent_witness:
  "map ce_pcentComplet (ctx_checklists (build_context sample_env [] card_one_of_three []))
     = [py ''33%'']
   \<and> (\<exists>r. map ce_pcentComplet (ctx_checklists (build_context sample_env [] card_one_of_three []))
           = [str_int r @ py ''%''] \<and> \<bar>of_int r - 100 * 1 / (3::rat)\<bar> \<le> 1 / 2)
   \<and> map ce_pcentComplet (ctx_checklists (build_context sample_env [] card_two_of_three []))
     = [py ''67%'']
   \<and> (\<exists>r. map ce_pcentComplet (ctx_checklists (build_context sample_env [] card_two_of_three []))
           = [str_int r @ py ''%''] \<and> \<bar>of_int r - 100 * 2 / (3::rat)\<bar> \<le> 1 / 2)
   \<and> map ce_pcentComplet (ctx_checklists (build_context sample_env []
         (sample_card\<lparr>cd_checklists := Some [sample_checklist []]\<rparr>) []))
     = [[]]
   \<and> percent_string 1 3 = py ''33%''"
proof -
  have e1: "map ce_pcentComplet (ctx_checklists (build_context sample_env [] card_one_of_three []))
      = [py ''33%'']"
    by code_simp
  have e2: "map ce_pcentComplet (ctx_checklists (build_context sample_env [] card_two_of_three []))
      = [py ''67%'']"
    by code_simp
  have e0: "map ce_pcentComplet (ctx_checklists (build_context sample_env []
         (sample_card\<lparr>cd_checklists := Some [sample_checklist []]\<rparr>) []))
     = [[]]"
    by code_simp
  have near: "\<exists>r. map ce_pcentComplet (ctx_checklists (build_context sample_env [] card []))
           = [str_int r @ py ''%''] \<and> \<bar>of_int r - 100 * of_nat k / (3::rat)\<bar> \<le> 1 / 2"
    if cls: "cd_checklists card = Some [sample_checklist items]"
      and n: "length items = 3"
      and k: "length (filter (\<lambda>item. ci_state item = py ''complete'') items) = k"
    for card items k
  proof -
    let ?cl = "sample_checklist items"
    let ?ctx = "ctx_checklists (build_context sample_env [] card [])"
    have ctx: "?ctx = [checklist_entry_of sample_env card ?cl]"
      by (simp add: build_context_def build_checklists_def cls sample_checklist_def py_def)
    have ci: "cl_checkItems ?cl = items" by (simp add: sample_checklist_def)
    from checklist_percent [of sample_env "[]" card "[]"]
    have "\<forall>entry\<in>set ?ctx.
      \<exists>cls cl. cd_checklists card = Some cls \<and> cl \<in> set cls \<and> cl_name cl \<noteq> [] \<and>
        entry = checklist_entry_of sample_env card cl \<and>
        (length (cl_checkItems cl) = 0 \<longrightarrow> ce_pcentComplet entry = []) \<and>
        (0 < length (cl_checkItems cl) \<and> length (cl_checkItems cl) < 2 ^ 40 \<longrightarrow>
          (\<exists>r. ce_pcentComplet entry = str_int r @ py ''%'' \<and> 0 \<le> r \<and>
               \<bar>of_int r -
                 100 * of_nat (length (filter (\<lambda>item. ci_state item = py ''complete'')
                                          (cl_checkItems cl)))
                     / (of_nat (length (cl_checkItems cl)) :: rat)\<bar> \<le> 1 / 2))"
      by blast
    then obtain cl r where "cl \<in> set [?cl]"
      "0 < length (cl_checkItems cl) \<and> length (cl_checkItems cl) < 2 ^ 40 \<longrightarrow>
         ce_pcentComplet (checklist_entry_of sample_env card ?cl) = str_int r @ py ''%'' \<and>
         \<bar>of_int r -
            100 * of_nat (length (filter (\<lambda>item. ci_state item = py ''complete'')
                                     (cl_checkItems cl)))
                / (of_nat (length (cl_checkItems cl)) :: rat)\<bar> \<le> 1 / 2"
      unfolding ctx cls by fastforce
    then have "ce_pcentComplet (checklist_entry_of sample_env card ?cl) = str_int r @ py ''%''"
      "\<bar>of_int r - 100 * of_nat k / (3::rat)\<bar> \<le> 1 / 2"
      using n k ci by simp_all
    then show ?thesis unfolding ctx by auto
  qed
  have n1: "\<exists>r. map ce_pcentComplet (ctx_checklists (build_context sample_env [] card_one_of_three []))
           = [str_int r @ py ''%''] \<and> \<bar>of_int r - 100 * 1 / (3::rat)\<bar> \<le> 1 / 2"
    using near [of card_one_of_three _ 1]
    by (simp add: card_one_of_three_def sample_item_def py_def)
  have n2: "\<exists>r. map ce_pcentComplet (ctx_checklists (build_context sample_env [] card_two_of_three []))
           = [str_int r @ py ''%''] \<and> \<bar>of_int r - 100 * 2 / (3::rat)\<bar> \<le> 1 / 2"
    using near [of card_two_of_three _ 2]
    by (simp add: card_two_of_three_def sample_item_def py_def)
  from checklist_percent [of sample_env "[]" card_one_of_three "[]"]
  have "percent_string 1 3 = py ''33%''" by blast
  with e1 e2 e0 n1 n2 show ?thesis by blast
qed


end
